theory Spec2Isabelle
  imports Main
begin

section \<open>JavaScript values\<close>

text \<open>
  Conditions, contexts and resource instances are plain JSON-like objects. A value is one of
  the JSON kinds plus \<open>undefined\<close>; an object is its list of own entries in iteration
  order. Numbers are the integers the application uses (ids). A well-formed object has
  distinct keys. Every such object inherits from \<open>Object.prototype\<close>: \<open>JProto name\<close> is
  the member it inherits under \<open>name\<close> (a function; the prototype object itself for
  \<open>__proto__\<close>). JSON data never contains one.
\<close>

datatype jsval =
    JUndefined
  | JNull
  | JBool bool
  | JNum int
  | JStr string
  | JObj "(string \<times> jsval) list"
  | JProto string

type_synonym jsobj = "(string \<times> jsval) list"

text \<open>The property names of \<open>Object.prototype\<close>.\<close>

definition object_prototype_names :: "string list" where
  "object_prototype_names =
     [''constructor'', ''__defineGetter__'', ''__defineSetter__'', ''hasOwnProperty'',
      ''__lookupGetter__'', ''__lookupSetter__'', ''isPrototypeOf'', ''propertyIsEnumerable'',
      ''toString'', ''valueOf'', ''__proto__'', ''toLocaleString'']"

definition inherited :: "string \<Rightarrow> bool" where
  "inherited k = (k \<in> set object_prototype_names)"

text \<open>
  \<open>o[k]\<close>: an own key gives its value; otherwise the read goes up the prototype chain
  and gives the inherited member if there is one, \<open>undefined\<close> if not.
\<close>

definition obj_get :: "jsobj \<Rightarrow> string \<Rightarrow> jsval" where
  "obj_get obj k =
     (case map_of obj k of
        Some v \<Rightarrow> v
      | None \<Rightarrow> if inherited k then JProto k else JUndefined)"

text \<open>The failures of the code, and the one the specification names.\<close>

datatype error =
    TypeError
  | EmptyFieldsError
  | MalformedRuleError string

text \<open>\<open>o[k] = v\<close>: an existing key keeps its position, a new key goes last.\<close>

fun obj_set :: "jsobj \<Rightarrow> string \<Rightarrow> jsval \<Rightarrow> jsobj" where
  "obj_set [] k v = [(k, v)]"
| "obj_set ((k', v') # rest) k v =
     (if k' = k then (k, v) # rest else (k', v') # obj_set rest k v)"

subsection \<open>String primitives\<close>

definition startsWith :: "string \<Rightarrow> string \<Rightarrow> bool" where
  "startsWith s p = (take (length p) s = p)"

definition endsWith :: "string \<Rightarrow> string \<Rightarrow> bool" where
  "endsWith s p = (length p \<le> length s \<and> drop (length s - length p) s = p)"

text \<open>\<open>s.slice(start, end)\<close>: a negative index counts from the end, both are clamped.\<close>

definition slice :: "string \<Rightarrow> int \<Rightarrow> int \<Rightarrow> string" where
  "slice s start end' =
     (let n = int (length s);
          from = (if start < 0 then max (n + start) 0 else min start n);
          to = (if end' < 0 then max (n + end') 0 else min end' n)
      in take (nat (to - from)) (drop (nat from) s))"

section \<open>Condition interpolation\<close>

text \<open>
  \<^verbatim>\<open>
  function interpolateConditions(conditions, context) {
    if (!conditions) return conditions;
    const result = { ...conditions };
    for (const [key, value] of Object.entries(result)) {
      if (typeof value === "string" && value.startsWith("{{") && value.endsWith("}}")) {
        const contextKey = value.slice(2, -2);
        result[key] = context[contextKey];
      }
    }
    return result;
  }
  \<close>
  The same function is written out twice in the repository (policy utilities and
  \<open>casl-types.ts\<close>); the bodies agree. \<open>conditions\<close> is an optional object: \<open>None\<close> is
  the absent (falsy) value, returned as it is; an object is always truthy. The loop runs
  over the entries of the fresh copy as they were before the loop and assigns into the copy.
\<close>

definition is_template :: "jsval \<Rightarrow> bool" where
  "is_template value =
     (case value of JStr s \<Rightarrow> startsWith s ''{{'' \<and> endsWith s ''}}'' | _ \<Rightarrow> False)"

definition contextKey :: "jsval \<Rightarrow> string" where
  "contextKey value = (case value of JStr s \<Rightarrow> slice s 2 (- 2) | _ \<Rightarrow> [])"

definition interpolate_step :: "jsobj \<Rightarrow> string \<times> jsval \<Rightarrow> jsobj \<Rightarrow> jsobj" where
  "interpolate_step context entry result =
     (if is_template (snd entry)
      then obj_set result (fst entry) (obj_get context (contextKey (snd entry)))
      else result)"

definition interpolateConditions :: "jsobj option \<Rightarrow> jsobj \<Rightarrow> jsobj option" where
  "interpolateConditions conditions context =
     (case conditions of
        None \<Rightarrow> None
      | Some c \<Rightarrow> Some (fold (interpolate_step context) c c))"

text \<open>
  The interpolation contract as the specification words it: a value of the form
  \<open>{{inner}}\<close> is replaced by the context's value for the trimmed inner text.
\<close>

definition is_space :: "char \<Rightarrow> bool" where
  "is_space c = (c \<in> set [CHR '' '', CHR 0x09, CHR 0x0A, CHR 0x0B, CHR 0x0C, CHR 0x0D])"

definition trim :: "string \<Rightarrow> string" where
  "trim s = rev (dropWhile is_space (rev (dropWhile is_space s)))"

definition spec_value :: "jsobj \<Rightarrow> jsval \<Rightarrow> jsval" where
  "spec_value context value =
     (case value of
        JStr s \<Rightarrow>
          (if startsWith s ''{{'' \<and> endsWith s ''}}'' \<and> 4 \<le> length s
           then obj_get context (trim (take (length s - 4) (drop 2 s)))
           else value)
      | _ \<Rightarrow> value)"

definition spec_interpolate :: "jsobj option \<Rightarrow> jsobj \<Rightarrow> jsobj option" where
  "spec_interpolate conditions context =
     map_option (map (\<lambda>(k, v). (k, spec_value context v))) conditions"

text \<open>What the code computes for one value: the name is the inner text as written.\<close>

definition interpolate_value :: "jsobj \<Rightarrow> jsval \<Rightarrow> jsval" where
  "interpolate_value context value =
     (if is_template value then obj_get context (contextKey value) else value)"

section \<open>Policy extraction and default policy\<close>

text \<open>
  The policy utilities work on rules with three fields. A schema maps each subject to the
  actions seen and the permission rules declared for it; it is the list of its entries in
  insertion order, which is the order \<open>Object.entries\<close> walks them.
\<close>

record PolicyRule =
  action :: string
  subject :: string
  conditions :: "jsobj option"

record SubjectPolicy =
  actions :: "string list"
  permissions :: "PolicyRule list"

type_synonym AppPolicy = "(string \<times> SubjectPolicy) list"

text \<open>
  The annotation \<open>withPolicy\<close> attaches to a route under the key \<open>__policy\<close>, and the
  route tree: a value that is not an object (or is null) is skipped, an object carrying
  \<open>__policy\<close> is a route and is not walked any further, any other object is walked entry
  by entry.
\<close>

record PolicyMeta =
  subjects :: "string list"
  actions :: "string list"
  conditions :: "jsobj option"
  description :: string

datatype contract =
    Leaf
  | Route PolicyMeta
  | Router "(string \<times> contract) list"

text \<open>
  An object lists its own keys with the array indices first, in ascending numeric order,
  then the other keys in insertion order. An array index is the decimal numeral, without
  leading zeros, of a number below \<open>2^32 - 1\<close>. The list of a schema's entries is kept in
  this order: \<open>insert_key\<close> is the creation of a new own key.
\<close>

definition decimal :: "string \<Rightarrow> int" where
  "decimal s = foldl (\<lambda>n c. 10 * n + (of_char c - 48)) 0 s"

definition is_array_index :: "string \<Rightarrow> bool" where
  "is_array_index s =
     (s \<noteq> [] \<and> list_all (\<lambda>c. c \<in> set ''0123456789'') s \<and>
      (s = ''0'' \<or> hd s \<noteq> CHR ''0'') \<and> length s \<le> 10 \<and> decimal s < 4294967295)"

fun insert_index :: "(string \<times> 'v) list \<Rightarrow> string \<Rightarrow> 'v \<Rightarrow> (string \<times> 'v) list" where
  "insert_index [] k v = [(k, v)]"
| "insert_index ((k', v') # rest) k v =
     (if is_array_index k' \<and> decimal k' < decimal k
      then (k', v') # insert_index rest k v
      else (k, v) # (k', v') # rest)"

definition insert_key :: "(string \<times> 'v) list \<Rightarrow> string \<Rightarrow> 'v \<Rightarrow> (string \<times> 'v) list" where
  "insert_key obj k v = (if is_array_index k then insert_index obj k v else obj @ [(k, v)])"

text \<open>
  \<^verbatim>\<open>
  for (const subject of policy.subjects) {
    if (!appPolicy[subject]) appPolicy[subject] = { actions: [], permissions: [] };
    for (const action of policy.actions)
      if (!appPolicy[subject].actions.includes(action)) appPolicy[subject].actions.push(action);
    for (const action of policy.actions)
      appPolicy[subject].permissions.push({ action, subject, conditions: policy.conditions });
  }
  \<close>
  The schema under construction is passed along as a value. The read \<open>appPolicy[subject]\<close>
  goes up the prototype chain: for a subject named like a member of \<open>Object.prototype\<close>
  and without an own entry it gives that member, which is truthy, so no entry is made; the
  member has no \<open>actions\<close> or \<open>permissions\<close>, and the first use of either in a loop
  throws a \<open>TypeError\<close>, which ends the extraction. \<open>modify\<close> is the in-place update of
  an own entry.
\<close>

fun fold_result :: "('a \<Rightarrow> 's \<Rightarrow> error + 's) \<Rightarrow> 'a list \<Rightarrow> 's \<Rightarrow> error + 's" where
  "fold_result f [] s = Inr s"
| "fold_result f (x # xs) s = (case f x s of Inl e \<Rightarrow> Inl e | Inr s' \<Rightarrow> fold_result f xs s')"

fun modify :: "AppPolicy \<Rightarrow> string \<Rightarrow> (SubjectPolicy \<Rightarrow> SubjectPolicy) \<Rightarrow> AppPolicy" where
  "modify [] subj f = []"
| "modify ((s, config) # rest) subj f =
     (if s = subj then (s, f config) # rest else (s, config) # modify rest subj f)"

definition modify_entry ::
  "AppPolicy \<Rightarrow> string \<Rightarrow> (SubjectPolicy \<Rightarrow> SubjectPolicy) \<Rightarrow> error + AppPolicy" where
  "modify_entry appPolicy subj f =
     (case map_of appPolicy subj of
        Some config \<Rightarrow> Inr (modify appPolicy subj f)
      | None \<Rightarrow> Inl TypeError)"

definition ensure_subject :: "string \<Rightarrow> AppPolicy \<Rightarrow> AppPolicy" where
  "ensure_subject subj appPolicy =
     (if map_of appPolicy subj = None \<and> \<not> inherited subj
      then insert_key appPolicy subj \<lparr>SubjectPolicy.actions = [], permissions = []\<rparr>
      else appPolicy)"

definition push_action :: "string \<Rightarrow> SubjectPolicy \<Rightarrow> SubjectPolicy" where
  "push_action act config =
     (if act \<in> set (SubjectPolicy.actions config) then config
      else config\<lparr>SubjectPolicy.actions := SubjectPolicy.actions config @ [act]\<rparr>)"

definition push_permission :: "PolicyMeta \<Rightarrow> string \<Rightarrow> string \<Rightarrow> SubjectPolicy \<Rightarrow> SubjectPolicy" where
  "push_permission policy subj act config =
     config\<lparr>permissions := permissions config @
       [\<lparr>PolicyRule.action = act, subject = subj,
         conditions = PolicyMeta.conditions policy\<rparr>]\<rparr>"

definition add_subject :: "PolicyMeta \<Rightarrow> string \<Rightarrow> AppPolicy \<Rightarrow> error + AppPolicy" where
  "add_subject policy subj appPolicy =
     (let ap1 = ensure_subject subj appPolicy
      in case fold_result (\<lambda>act ap. modify_entry ap subj (push_action act))
                (PolicyMeta.actions policy) ap1 of
           Inl e \<Rightarrow> Inl e
         | Inr ap2 \<Rightarrow>
             fold_result (\<lambda>act ap. modify_entry ap subj (push_permission policy subj act))
               (PolicyMeta.actions policy) ap2)"

definition add_policy :: "PolicyMeta \<Rightarrow> AppPolicy \<Rightarrow> error + AppPolicy" where
  "add_policy policy appPolicy = fold_result (add_subject policy) (subjects policy) appPolicy"

text \<open>
  \<open>traverse\<close> walks the entries of an object in order; \<open>visit\<close> is the body of its loop
  for one value. An exception ends the walk.
\<close>

fun traverse :: "(string \<times> contract) list \<Rightarrow> AppPolicy \<Rightarrow> error + AppPolicy"
  and visit :: "contract \<Rightarrow> AppPolicy \<Rightarrow> error + AppPolicy" where
  "traverse [] appPolicy = Inr appPolicy"
| "traverse (entry # rest) appPolicy =
     (case visit (snd entry) appPolicy of
        Inl e \<Rightarrow> Inl e
      | Inr appPolicy' \<Rightarrow> traverse rest appPolicy')"
| "visit Leaf appPolicy = Inr appPolicy"
| "visit (Route policy) appPolicy = add_policy policy appPolicy"
| "visit (Router obj) appPolicy = traverse obj appPolicy"

definition extractAppPolicy :: "(string \<times> contract) list \<Rightarrow> error + AppPolicy" where
  "extractAppPolicy contract = traverse contract []"

text \<open>
  \<open>createDefaultUserPolicy\<close> pushes a copy of every permission of every entry onto one
  list, entry by entry.
\<close>

definition createDefaultUserPolicy :: "AppPolicy \<Rightarrow> PolicyRule list" where
  "createDefaultUserPolicy appPolicy =
     fold (\<lambda>entry rules.
             fold (\<lambda>permission rules.
                     rules @ [\<lparr>PolicyRule.action = PolicyRule.action permission,
                                subject = PolicyRule.subject permission,
                                conditions = PolicyRule.conditions permission\<rparr>])
               (permissions (snd entry)) rules)
       appPolicy []"

text \<open>The annotations of a route tree in depth-first order, as \<open>traverse\<close> meets them.\<close>

fun policies :: "(string \<times> contract) list \<Rightarrow> PolicyMeta list"
  and policies_of :: "contract \<Rightarrow> PolicyMeta list" where
  "policies [] = []"
| "policies (entry # rest) = policies_of (snd entry) @ policies rest"
| "policies_of Leaf = []"
| "policies_of (Route policy) = [policy]"
| "policies_of (Router obj) = policies obj"

text \<open>
  The rules one annotation declares for a subject, and all the rules a list of annotations
  declares for it: one rule per action, once for every time the subject is named.
\<close>

definition declared_for :: "PolicyMeta \<Rightarrow> string \<Rightarrow> PolicyRule list" where
  "declared_for policy subj =
     map (\<lambda>act. \<lparr>PolicyRule.action = act, subject = subj,
                  conditions = PolicyMeta.conditions policy\<rparr>) (PolicyMeta.actions policy)"

definition declared_permissions :: "string \<Rightarrow> PolicyMeta list \<Rightarrow> PolicyRule list" where
  "declared_permissions subj ps =
     concat (map (\<lambda>policy. concat (map (\<lambda>s. if s = subj then declared_for policy s else [])
                                     (subjects policy))) ps)"

text \<open>
  Whether the extraction of a list of annotations runs to its end: no annotation with an
  action names a subject that reads as an inherited member.
\<close>

definition extractable :: "PolicyMeta list \<Rightarrow> bool" where
  "extractable ps =
     list_all (\<lambda>policy. PolicyMeta.actions policy = [] \<or>
                         list_all (\<lambda>s. \<not> inherited s) (subjects policy)) ps"

text \<open>
  The invariant of extraction: every entry has distinct actions and exactly the expected
  permissions, a subject without an entry expects none, and no entry is named like an
  inherited member.
\<close>

definition sound :: "AppPolicy \<Rightarrow> (string \<Rightarrow> PolicyRule list) \<Rightarrow> bool" where
  "sound appPolicy expected =
     (\<forall>s. case map_of appPolicy s of
             None \<Rightarrow> expected s = []
           | Some config \<Rightarrow> distinct (SubjectPolicy.actions config) \<and>
                           permissions config = expected s \<and> \<not> inherited s)"

section \<open>Building an ability\<close>

text \<open>
  The rule of \<open>casl-types.ts\<close>. TypeScript types are erased at run time and rule lists
  reach \<open>createAppAbility\<close> from \<open>JSON.parse\<close> of a stored policy, so every field may be
  absent (\<open>None\<close>), \<open>action\<close> and \<open>subject\<close> included. The field \<open>fields\<close> is written
  \<open>fields'\<close>.
\<close>

record AppRawRule =
  action :: "string option"
  subject :: "string option"
  conditions :: "jsobj option"
  fields' :: "string list option"
  inverted :: "bool option"
  reason :: "string option"

text \<open>
  Modelled from the spec: the ability builder (\<open>can\<close>, \<open>cannot\<close>, \<open>build\<close> of
  \<open>AbilityBuilder\<close>) and the ability itself come from the library \<open>@casl/ability\<close>, which
  \<open>casl-types.ts\<close> imports and whose code is not among the sources. An ability is the list
  of rules it was built from, in the order supplied. A call of \<open>can\<close> registers one rule
  from its arguments, \<open>cannot\<close> registers the same rule marked inverted, and \<open>build\<close>
  hands the registered rules to the ability. Two behaviours of the library that the
  specification does not describe are part of the model, since \<open>createAppAbility\<close> runs
  into them: the builder looks at the subject first and, when it is falsy (absent or the
  empty string), registers a rule that carries the action alone; and \<open>build\<close> refuses a
  rule whose \<open>fields\<close> is an empty array, with an error of its own.
\<close>

datatype AppAbility = Ability (rules: "AppRawRule list")

definition present :: "string option \<Rightarrow> bool" where
  "present s = (case s of None \<Rightarrow> False | Some t \<Rightarrow> t \<noteq> [])"

definition builder_can ::
  "string option \<Rightarrow> string option \<Rightarrow> string list option \<Rightarrow> jsobj option \<Rightarrow>
   AppRawRule list \<Rightarrow> AppRawRule list" where
  "builder_can act subj flds conds registered =
     registered @
     [if present subj
      then \<lparr>AppRawRule.action = act, subject = subj, conditions = conds,
            fields' = flds, inverted = None, reason = None\<rparr>
      else \<lparr>AppRawRule.action = act, subject = None, conditions = None,
            fields' = None, inverted = None, reason = None\<rparr>]"

definition builder_cannot ::
  "string option \<Rightarrow> string option \<Rightarrow> jsobj option \<Rightarrow> AppRawRule list \<Rightarrow> AppRawRule list" where
  "builder_cannot act subj conds registered =
     registered @
     [if present subj
      then \<lparr>AppRawRule.action = act, subject = subj, conditions = conds,
            fields' = None, inverted = Some True, reason = None\<rparr>
      else \<lparr>AppRawRule.action = act, subject = None, conditions = None,
            fields' = None, inverted = Some True, reason = None\<rparr>]"

definition build :: "AppRawRule list \<Rightarrow> error + AppAbility" where
  "build registered =
     (if list_ex (\<lambda>rule. fields' rule = Some []) registered
      then Inl EmptyFieldsError
      else Inr (Ability registered))"

text \<open>
  \<^verbatim>\<open>
  export function createAppAbility(userRules, context) {
    const { can, cannot, build } = new AbilityBuilder(createTypedAppAbility);
    for (const rule of userRules) {
      const conditions = rule.conditions
        ? interpolateConditions(rule.conditions, context) : undefined;
      if (rule.inverted) cannot(rule.action, rule.subject, conditions);
      else can(rule.action, rule.subject, rule.fields, conditions);
    }
    return build();
  }
  \<close>
  \<open>register_rule\<close> is the body of the loop; the builder's rules are passed along, and
  \<open>registered_rules\<close> is the list the builder holds when \<open>build\<close> is called.
\<close>

definition register_rule :: "jsobj \<Rightarrow> AppRawRule \<Rightarrow> AppRawRule list \<Rightarrow> AppRawRule list" where
  "register_rule context rule registered =
     (let conds = (case AppRawRule.conditions rule of
                     Some c \<Rightarrow> interpolateConditions (Some c) context
                   | None \<Rightarrow> None)
      in if inverted rule = Some True
         then builder_cannot (AppRawRule.action rule) (AppRawRule.subject rule) conds registered
         else builder_can (AppRawRule.action rule) (AppRawRule.subject rule) (fields' rule) conds
                registered)"

definition registered_rules :: "AppRawRule list \<Rightarrow> jsobj \<Rightarrow> AppRawRule list" where
  "registered_rules userRules context = fold (register_rule context) userRules []"

definition createAppAbility :: "AppRawRule list \<Rightarrow> jsobj \<Rightarrow> error + AppAbility" where
  "createAppAbility userRules context = build (registered_rules userRules context)"

text \<open>
  Modelled from the spec: the evaluation of \<open>can(action, subject, instance, field?)\<close> is
  the library's as well. Section 4.5 of the specification gives it: a rule matches a query
  when its action and subject equal the queried ones (or are the wildcard markers), every
  key of its conditions equals the instance's value for that key, and, when the query names
  a field, the rule declares no fields or declares that one. All rules are scanned in order;
  each matching rule replaces the running decision by its verdict (deny when inverted,
  grant otherwise); the answer is the final decision, deny when no rule matched.
\<close>

definition any_action :: string where "any_action = ''manage''"
definition any_subject :: string where "any_subject = ''all''"

definition conditions_hold :: "jsobj option \<Rightarrow> jsobj \<Rightarrow> bool" where
  "conditions_hold conds inst =
     (case conds of None \<Rightarrow> True | Some c \<Rightarrow> list_all (\<lambda>entry. obj_get inst (fst entry) = snd entry) c)"

definition field_allowed :: "string list option \<Rightarrow> string option \<Rightarrow> bool" where
  "field_allowed flds field =
     (case field of None \<Rightarrow> True
      | Some f \<Rightarrow> (case flds of None \<Rightarrow> True | Some fs \<Rightarrow> f \<in> set fs))"

definition rule_matches :: "AppRawRule \<Rightarrow> string \<Rightarrow> string \<Rightarrow> jsobj \<Rightarrow> string option \<Rightarrow> bool" where
  "rule_matches rule act subj inst field =
     ((AppRawRule.action rule = Some act \<or> AppRawRule.action rule = Some any_action) \<and>
      (AppRawRule.subject rule = Some subj \<or> AppRawRule.subject rule = Some any_subject) \<and>
      conditions_hold (AppRawRule.conditions rule) inst \<and>
      field_allowed (fields' rule) field)"

datatype decision = Unset | Grant | Deny

definition scan_step ::
  "string \<Rightarrow> string \<Rightarrow> jsobj \<Rightarrow> string option \<Rightarrow> AppRawRule \<Rightarrow> decision \<Rightarrow> decision" where
  "scan_step act subj inst field rule running =
     (if rule_matches rule act subj inst field
      then (if inverted rule = Some True then Deny else Grant)
      else running)"

definition can :: "AppAbility \<Rightarrow> string \<Rightarrow> string \<Rightarrow> jsobj \<Rightarrow> string option \<Rightarrow> bool" where
  "can ability act subj inst field =
     (fold (scan_step act subj inst field) (rules ability) Unset = Grant)"



text \<open>The example rules of the specification and two rules with field lists.\<close>

definition grant_delete :: AppRawRule where
  "grant_delete = \<lparr>AppRawRule.action = Some ''delete'', subject = Some ''Post'',
      conditions = None, fields' = None, inverted = None, reason = None\<rparr>"

definition forbid_delete_9 :: AppRawRule where
  "forbid_delete_9 = \<lparr>AppRawRule.action = Some ''delete'', subject = Some ''Post'',
      conditions = Some [(''authorId'', JNum 9)], fields' = None, inverted = Some True,
      reason = None\<rparr>"

definition forbid_update_title :: AppRawRule where
  "forbid_update_title = \<lparr>AppRawRule.action = Some ''update'', subject = Some ''Post'',
      conditions = Some [(''authorId'', JStr ''{{userId}}'')], fields' = Some [''title''],
      inverted = Some True, reason = Some ''locked''\<rparr>"

definition grant_update :: AppRawRule where
  "grant_update = \<lparr>AppRawRule.action = Some ''update'', subject = Some ''Post'',
      conditions = None, fields' = Some [''title'', ''content''], inverted = None,
      reason = None\<rparr>"

text \<open>The rule one pass of the loop of \<open>createAppAbility\<close> registers.\<close>

definition registered_as :: "jsobj \<Rightarrow> AppRawRule \<Rightarrow> AppRawRule" where
  "registered_as context rule =
     \<lparr>AppRawRule.action = AppRawRule.action rule,
      subject = (if present (AppRawRule.subject rule) then AppRawRule.subject rule else None),
      conditions = (if present (AppRawRule.subject rule)
                    then (case AppRawRule.conditions rule of
                            Some c \<Rightarrow> interpolateConditions (Some c) context
                          | None \<Rightarrow> None)
                    else None),
      fields' = (if inverted rule = Some True \<or> \<not> present (AppRawRule.subject rule)
                 then None else fields' rule),
      inverted = (if inverted rule = Some True then Some True else None),
      reason = None\<rparr>"


section \<open>Interpolating a policy\<close>

text \<open>
  \<^verbatim>\<open>
  export function interpolatePolicy(policy, context) {
    return policy.map((rule) => ({
      ...rule,
      conditions: interpolateConditions(rule.conditions, context),
    }));
  }
  \<close>
  On values: every rule is copied with all its fields, the \<open>conditions\<close> field replaced.
  Fields beyond the three of \<open>PolicyRule\<close> are the record's extension.
\<close>

definition interpolatePolicy :: "'a PolicyRule_scheme list \<Rightarrow> jsobj \<Rightarrow> 'a PolicyRule_scheme list" where
  "interpolatePolicy policy context =
     map (\<lambda>rule. rule\<lparr>PolicyRule.conditions :=
                         interpolateConditions (PolicyRule.conditions rule) context\<rparr>) policy"

text \<open>
  On a store: whether the input is mutated depends on which object the loop of
  \<open>interpolateConditions\<close> assigns into. A store is the list of the conditions objects
  allocated so far, an address is an index into it, and a rule refers to its conditions by
  address (\<open>None\<close> for an absent field). \<open>{ ...conditions }\<close> allocates a copy at the next
  free address, \<open>Object.entries(result)\<close> reads the copy's entries once, and
  \<open>result[key] = ...\<close> writes at the copy's address. The rules themselves are never
  assigned to: the callback builds a new rule from the old one.
\<close>

record PolicyRuleObj =
  action :: string
  subject :: string
  conditions :: "nat option"

type_synonym heap = "jsobj list"

definition interpolate_step_heap :: "jsobj \<Rightarrow> nat \<Rightarrow> string \<times> jsval \<Rightarrow> heap \<Rightarrow> heap" where
  "interpolate_step_heap context result entry h =
     (if is_template (snd entry)
      then h[result := obj_set (h ! result) (fst entry) (obj_get context (contextKey (snd entry)))]
      else h)"

definition interpolateConditions_heap :: "nat option \<Rightarrow> jsobj \<Rightarrow> heap \<Rightarrow> nat option \<times> heap" where
  "interpolateConditions_heap conds context h =
     (case conds of
        None \<Rightarrow> (None, h)
      | Some a \<Rightarrow>
          (let result = length h;
               h1 = h @ [h ! a]
           in (Some result, fold (interpolate_step_heap context result) (h1 ! result) h1)))"

definition interpolatePolicy_heap ::
  "'a PolicyRuleObj_scheme list \<Rightarrow> jsobj \<Rightarrow> heap \<Rightarrow> 'a PolicyRuleObj_scheme list \<times> heap" where
  "interpolatePolicy_heap policy context h =
     fold (\<lambda>rule (out, h).
             (case interpolateConditions_heap (PolicyRuleObj.conditions rule) context h of
                (c, h') \<Rightarrow> (out @ [rule\<lparr>PolicyRuleObj.conditions := c\<rparr>], h')))
       policy ([], h)"

text \<open>A rule read off the store: its conditions address replaced by the object there.\<close>

definition read_rule :: "heap \<Rightarrow> 'a PolicyRuleObj_scheme \<Rightarrow> 'a PolicyRule_scheme" where
  "read_rule h rule =
     PolicyRule.extend
       \<lparr>PolicyRule.action = PolicyRuleObj.action rule,
        subject = PolicyRuleObj.subject rule,
        conditions = map_option (\<lambda>a. h ! a) (PolicyRuleObj.conditions rule)\<rparr>
       (PolicyRuleObj.more rule)"

text \<open>The body of the \<open>map\<close> callback, on the pair of the output so far and the store.\<close>

definition policy_step ::
  "jsobj \<Rightarrow> 'a PolicyRuleObj_scheme \<Rightarrow> 'a PolicyRuleObj_scheme list \<times> heap \<Rightarrow>
   'a PolicyRuleObj_scheme list \<times> heap" where
  "policy_step context rule st =
     (case st of (out, h) \<Rightarrow>
        (case interpolateConditions_heap (PolicyRuleObj.conditions rule) context h of
           (c, h') \<Rightarrow> (out @ [rule\<lparr>PolicyRuleObj.conditions := c\<rparr>], h')))"

section \<open>Facts about interpolation\<close>

subsection \<open>Template strings\<close>

lemma startsWith_append: "startsWith (p @ t) p"
  by (simp add: startsWith_def)

lemma endsWith_append: "endsWith (xs @ p) p"
  by (simp add: endsWith_def)

lemma endsWith_append2: "endsWith (p @ n @ q) q"
  using endsWith_append [of "p @ n" q] by simp

lemma startsWith_iff: "startsWith s p \<longleftrightarrow> (\<exists>t. s = p @ t)"
proof
  assume "startsWith s p"
  then have "s = p @ drop (length p) s"
    unfolding startsWith_def by (metis append_take_drop_id)
  then show "\<exists>t. s = p @ t" by (rule exI [of _ "drop (length p) s"])
next
  assume "\<exists>t. s = p @ t"
  then show "startsWith s p" by (auto simp: startsWith_append)
qed

lemma endsWith_iff: "endsWith s p \<longleftrightarrow> (\<exists>t. s = t @ p)"
proof
  assume "endsWith s p"
  then have "s = take (length s - length p) s @ p"
    unfolding endsWith_def by (metis append_take_drop_id)
  then show "\<exists>t. s = t @ p" by (rule exI [of _ "take (length s - length p) s"])
next
  assume "\<exists>t. s = t @ p"
  then show "endsWith s p" by (auto simp: endsWith_append)
qed

text \<open>The two delimiters cannot overlap: a string with both has an inner text.\<close>

lemma braces_both:
  assumes "''{{'' @ t = u @ ''}}''"
  shows "\<exists>name. t = name @ ''}}''"
proof -
  from assms consider w where "''{{'' = u @ w" "w @ t = ''}}''"
    | w where "''{{'' @ w = u" "t = w @ ''}}''"
    unfolding append_eq_append_conv2 by blast
  then show ?thesis
  proof cases
    case 1
    from 1(2) have "w = [] \<or> (\<exists>w'. w = CHR ''}'' # w')"
      by (cases w) auto
    moreover from 1(1) have "w = [] \<or> (\<exists>w'. w = CHR ''{'' # w')"
      by (cases u; cases "tl u"; cases w) auto
    ultimately have "w = []" by auto
    with 1(2) have "t = [] @ ''}}''" by simp
    then show ?thesis by (rule exI [of _ "[]"])
  next
    case 2
    from 2(2) show ?thesis by (rule exI [of _ w])
  qed
qed

lemma is_template_JStr:
  "is_template (JStr s) = (startsWith s ''{{'' \<and> endsWith s ''}}'')"
  unfolding is_template_def by (simp only: jsval.case)

lemma is_template_is_string: "is_template v \<Longrightarrow> \<exists>s. v = JStr s"
  unfolding is_template_def by (cases v) (simp_all only: jsval.case jsval.inject simp_thms)

lemma is_template_intro: "is_template (JStr (''{{'' @ name @ ''}}''))"
  unfolding is_template_JStr
  using startsWith_append endsWith_append2 by (rule conjI)

lemma is_template_inner:
  assumes "is_template (JStr s)"
  shows "\<exists>name. s = ''{{'' @ name @ ''}}''"
proof -
  from assms have st: "startsWith s ''{{''" and en: "endsWith s ''}}''"
    unfolding is_template_JStr by (rule conjunct1, rule conjunct2)
  from st obtain t where s: "s = ''{{'' @ t"
    unfolding startsWith_iff ..
  from en obtain u where u: "s = u @ ''}}''"
    unfolding endsWith_iff ..
  from s u have "''{{'' @ t = u @ ''}}''" by (simp only:)
  then obtain name where "t = name @ ''}}''"
    using braces_both by blast
  with s show ?thesis by (simp only:) (rule exI, rule refl)
qed

lemma slice_inner: "slice (a # b # name @ [c, d]) 2 (- 2) = name"
  by (simp add: slice_def Let_def)

lemma contextKey_template: "contextKey (JStr (''{{'' @ name @ ''}}'')) = name"
  unfolding contextKey_def using slice_inner by simp


subsection \<open>The interpolation loop\<close>

lemma obj_set_fresh_prefix:
  "k \<notin> fst ` set pre \<Longrightarrow> obj_set (pre @ (k, v) # rest) k v' = pre @ (k, v') # rest"
  by (induction pre) auto

lemma interpolate_step_at:
  assumes "k \<notin> fst ` set pre"
  shows "interpolate_step context (k, v) (pre @ (k, v) # rest) =
         pre @ (k, interpolate_value context v) # rest"
  using assms by (simp add: interpolate_step_def interpolate_value_def obj_set_fresh_prefix)

lemma fold_interpolate_step:
  "distinct (map fst pre @ map fst c) \<Longrightarrow>
   fold (interpolate_step context) c (pre @ c) =
   pre @ map (\<lambda>(k, v). (k, interpolate_value context v)) c"
proof (induction c arbitrary: pre)
  case Nil
  then show ?case by simp
next
  case (Cons e c)
  obtain k v where e: "e = (k, v)" by (cases e)
  from Cons.prems e have fresh: "k \<notin> fst ` set pre" by auto
  from Cons.prems e have d: "distinct (map fst (pre @ [(k, interpolate_value context v)]) @ map fst c)"
    by auto
  have "fold (interpolate_step context) (e # c) (pre @ e # c) =
        fold (interpolate_step context) c ((pre @ [(k, interpolate_value context v)]) @ c)"
    using fresh e by (simp add: interpolate_step_at)
  also have "\<dots> = (pre @ [(k, interpolate_value context v)]) @
                    map (\<lambda>(k, v). (k, interpolate_value context v)) c"
    using d by (rule Cons.IH)
  finally show ?case using e by simp
qed

lemma interpolateConditions_map:
  assumes "distinct (map fst c)"
  shows "interpolateConditions (Some c) context =
         Some (map (\<lambda>(k, v). (k, interpolate_value context v)) c)"
  using fold_interpolate_step [of "[]" c "context"] assms
  by (simp add: interpolateConditions_def)

lemma map_fst_interpolated:
  "map fst (map (\<lambda>(k, v). (k, interpolate_value context v)) c) = map fst c"
  by (induction c) auto

lemma obj_get_interpolated:
  "(k, v) \<in> set c \<Longrightarrow> distinct (map fst c) \<Longrightarrow>
   obj_get (map (\<lambda>(k, v). (k, interpolate_value context v)) c) k = interpolate_value context v"
proof -
  assume a: "(k, v) \<in> set c" "distinct (map fst c)"
  have "(k, interpolate_value context v) \<in> set (map (\<lambda>(k, v). (k, interpolate_value context v)) c)"
    using a(1) by force
  moreover have "distinct (map fst (map (\<lambda>(k, v). (k, interpolate_value context v)) c))"
    using a(2) by (simp only: map_fst_interpolated)
  ultimately have "map_of (map (\<lambda>(k, v). (k, interpolate_value context v)) c) k =
                   Some (interpolate_value context v)"
    by (rule map_of_is_SomeI [rotated])
  then show ?thesis by (simp add: obj_get_def inherited_def object_prototype_names_def)
qed

lemma interpolate_value_template:
  "interpolate_value context (JStr (''{{'' @ name @ ''}}'')) = obj_get context name"
  unfolding interpolate_value_def
  by (simp only: is_template_intro contextKey_template if_True)

lemma interpolate_value_other:
  assumes "\<nexists>name. v = JStr (''{{'' @ name @ ''}}'')"
  shows "interpolate_value context v = v"
proof -
  have "\<not> is_template v"
  proof
    assume t: "is_template v"
    then obtain s where s: "v = JStr s" using is_template_is_string by blast
    with t have "is_template (JStr s)" by (simp only:)
    then obtain name where "s = ''{{'' @ name @ ''}}''" using is_template_inner by blast
    with s have "v = JStr (''{{'' @ name @ ''}}'')" by (simp only:)
    with assms show False by blast
  qed
  then show ?thesis by (simp add: interpolate_value_def)
qed

subsection \<open>Template resolution\<close>

text \<open>
  Claim C3, as the specification states it, takes the name of a template to be the trimmed
  inner text. The code slices the braces off and looks the inner text up as it is written:
  for \<open>{authorId: "{{ userId }}"}\<close> and the context \<open>{userId: 7}\<close> it yields
  \<open>{authorId: undefined}\<close>, where the stated contract yields \<open>{authorId: 7}\<close>.
\<close>

theorem interpolateConditions_trim_counterexample:
  "interpolateConditions (Some [(''authorId'', JStr ''{{ userId }}'')]) [(''userId'', JNum 7)]
     = Some [(''authorId'', JUndefined)]
   \<and> spec_interpolate (Some [(''authorId'', JStr ''{{ userId }}'')]) [(''userId'', JNum 7)]
     = Some [(''authorId'', JNum 7)]"
  by (simp add: interpolateConditions_def interpolate_step_def is_template_def startsWith_def
      endsWith_def contextKey_def slice_def obj_get_def inherited_def object_prototype_names_def spec_interpolate_def spec_value_def
      trim_def is_space_def)

text \<open>
  Claim C3 (amended): for every conditions object and context, interpolation keeps the keys
  and their order, replaces each top-level value that is a string \<open>{{name}}\<close> by
  \<open>context[name]\<close>, the name being the text between the braces exactly as written (no
  trimming), and leaves every other value unchanged; absent conditions stay absent.
\<close>

theorem interpolateConditions_templates:
  assumes "distinct (map fst c)"
  shows "interpolateConditions None context = None \<and>
         (\<exists>c'. interpolateConditions (Some c) context = Some c' \<and> map fst c' = map fst c \<and>
            (\<forall>k v. (k, v) \<in> set c \<longrightarrow>
               (\<forall>name. v = JStr (''{{'' @ name @ ''}}'') \<longrightarrow> obj_get c' k = obj_get context name) \<and>
               ((\<nexists>name. v = JStr (''{{'' @ name @ ''}}'')) \<longrightarrow> obj_get c' k = v)))"
proof -
  let ?c' = "map (\<lambda>(k, v). (k, interpolate_value context v)) c"
  have 1: "interpolateConditions (Some c) context = Some ?c'"
    using assms by (rule interpolateConditions_map)
  have 2: "map fst ?c' = map fst c"
    by (rule map_fst_interpolated)
  have 3: "\<forall>k v. (k, v) \<in> set c \<longrightarrow>
               (\<forall>name. v = JStr (''{{'' @ name @ ''}}'') \<longrightarrow> obj_get ?c' k = obj_get context name) \<and>
               ((\<nexists>name. v = JStr (''{{'' @ name @ ''}}'')) \<longrightarrow> obj_get ?c' k = v)"
  proof (intro allI impI conjI)
    fix k v name
    assume "(k, v) \<in> set c" and v: "v = JStr (''{{'' @ name @ ''}}'')"
    then have "obj_get ?c' k = interpolate_value context v"
      using assms by (simp only: obj_get_interpolated)
    then show "obj_get ?c' k = obj_get context name"
      unfolding v by (simp only: interpolate_value_template)
  next
    fix k v
    assume "(k, v) \<in> set c" and v: "\<nexists>name. v = JStr (''{{'' @ name @ ''}}'')"
    then have "obj_get ?c' k = interpolate_value context v"
      using assms by (simp only: obj_get_interpolated)
    also have "\<dots> = v"
      using v by (rule interpolate_value_other)
    finally show "obj_get ?c' k = v" .
  qed
  have "interpolateConditions None context = None"
    by (simp add: interpolateConditions_def)
  with 1 2 3 show ?thesis by blast
qed

text \<open>The specification's example: \<open>{authorId: "{{userId}}"}\<close> with \<open>{userId: 7}\<close>.\<close>

theorem interpolateConditions_templates_witness:
  "distinct (map fst [(''authorId'', JStr ''{{userId}}'')]) \<and>
   interpolateConditions (Some [(''authorId'', JStr ''{{userId}}'')]) [(''userId'', JNum 7)]
     = Some [(''authorId'', JNum 7)]"
  using interpolateConditions_templates
    [of "[(''authorId'', JStr ''{{userId}}'')]" "[(''userId'', JNum 7)]"]
  by (simp add: interpolateConditions_def interpolate_step_def is_template_def startsWith_def
      endsWith_def contextKey_def slice_def obj_get_def inherited_def object_prototype_names_def)

lemma interpolate_value_twice:
  assumes "\<forall>name. v = JStr (''{{'' @ name @ ''}}'') \<longrightarrow> \<not> is_template (obj_get context name)"
  shows "interpolate_value context (interpolate_value context v) = interpolate_value context v"
proof (cases "is_template v")
  case True
  then obtain s where s: "v = JStr s" using is_template_is_string by blast
  with True have "is_template (JStr s)" by (simp only:)
  then obtain name where "s = ''{{'' @ name @ ''}}''" using is_template_inner by blast
  with s have v: "v = JStr (''{{'' @ name @ ''}}'')" by (simp only:)
  with assms have n: "\<not> is_template (obj_get context name)" by blast
  have "interpolate_value context v = obj_get context name"
    unfolding v by (rule interpolate_value_template)
  moreover from n have "interpolate_value context (obj_get context name) = obj_get context name"
    by (simp add: interpolate_value_def)
  ultimately show ?thesis by (simp only:)
next
  case False
  then have "interpolate_value context v = v" by (simp add: interpolate_value_def)
  then show ?thesis by (simp only:)
qed

text \<open>
  Claim C8: interpolation is idempotent on non-template values. For every conditions object
  and context such that no value substituted from the context is itself a template string,
  interpolating the interpolated conditions again changes nothing.
\<close>

theorem interpolateConditions_idempotent:
  assumes "distinct (map fst c)"
    and "\<forall>k name. (k, JStr (''{{'' @ name @ ''}}'')) \<in> set c \<longrightarrow>
           \<not> is_template (obj_get context name)"
  shows "interpolateConditions (interpolateConditions (Some c) context) context
           = interpolateConditions (Some c) context
         \<and> interpolateConditions (interpolateConditions None context) context
           = interpolateConditions None context"
proof -
  let ?f = "\<lambda>(k, v). (k, interpolate_value context v)"
  have 1: "interpolateConditions (Some c) context = Some (map ?f c)"
    using assms(1) by (rule interpolateConditions_map)
  have "distinct (map fst (map ?f c))"
    using assms(1) by (simp only: map_fst_interpolated)
  then have 2: "interpolateConditions (Some (map ?f c)) context = Some (map ?f (map ?f c))"
    by (rule interpolateConditions_map)
  have "map ?f (map ?f c) = map ?f c"
  proof -
    have "\<forall>e \<in> set c. ?f (?f e) = ?f e"
    proof
      fix e assume e: "e \<in> set c"
      obtain k v where kv: "e = (k, v)" by (cases e)
      with e assms(2)
      have "\<forall>name. v = JStr (''{{'' @ name @ ''}}'') \<longrightarrow> \<not> is_template (obj_get context name)"
        by blast
      then have "interpolate_value context (interpolate_value context v)
                   = interpolate_value context v"
        by (rule interpolate_value_twice)
      with kv show "?f (?f e) = ?f e" by simp
    qed
    then show ?thesis by (simp add: comp_def)
  qed
  with 1 2 show ?thesis by (simp add: interpolateConditions_def)
qed

theorem interpolateConditions_idempotent_witness:
  "distinct (map fst [(''authorId'', JStr ''{{userId}}''), (''title'', JStr ''x'')]) \<and>
   \<not> is_template (obj_get [(''userId'', JNum 7)] ''userId'') \<and>
   interpolateConditions
     (interpolateConditions (Some [(''authorId'', JStr ''{{userId}}''), (''title'', JStr ''x'')])
        [(''userId'', JNum 7)]) [(''userId'', JNum 7)]
   = Some [(''authorId'', JNum 7), (''title'', JStr ''x'')]"
proof -
  have d: "distinct (map fst [(''authorId'', JStr ''{{userId}}''), (''title'', JStr ''x'')])"
    by simp
  have h: "\<forall>k name. (k, JStr (''{{'' @ name @ ''}}''))
        \<in> set [(''authorId'', JStr ''{{userId}}''), (''title'', JStr ''x'')] \<longrightarrow>
      \<not> is_template (obj_get [(''userId'', JNum 7)] name)"
    by (simp add: obj_get_def inherited_def object_prototype_names_def is_template_def)
  have e: "interpolateConditions (Some [(''authorId'', JStr ''{{userId}}''), (''title'', JStr ''x'')])
        [(''userId'', JNum 7)] = Some [(''authorId'', JNum 7), (''title'', JStr ''x'')]"
    by (simp add: interpolateConditions_def interpolate_step_def is_template_def startsWith_def
      endsWith_def contextKey_def slice_def obj_get_def inherited_def object_prototype_names_def)
  have n: "\<not> is_template (obj_get [(''userId'', JNum 7)] ''userId'')"
    by (simp add: obj_get_def inherited_def object_prototype_names_def is_template_def)
  from interpolateConditions_idempotent [OF d h] d n e show ?thesis
    by (simp only: simp_thms)
qed

section \<open>Facts about extraction and default derivation\<close>

lemma fold_result_append:
  "fold_result f (xs @ ys) s =
     (case fold_result f xs s of Inl e \<Rightarrow> Inl e | Inr s' \<Rightarrow> fold_result f ys s')"
  by (induction xs arbitrary: s) (auto split: sum.splits)

lemma traverse_visit_policies:
  "traverse obj appPolicy = fold_result add_policy (policies obj) appPolicy"
  "visit c appPolicy = fold_result add_policy (policies_of c) appPolicy"
proof (induction obj appPolicy and c appPolicy rule: traverse_visit.induct)
  case (2 entry rest appPolicy)
  then show ?case by (auto simp: fold_result_append split: sum.splits)
qed (simp_all split: sum.splits)

lemma extractAppPolicy_fold:
  "extractAppPolicy contract = fold_result add_policy (policies contract) []"
  by (simp add: extractAppPolicy_def traverse_visit_policies)

lemma map_of_modify:
  "map_of (modify ap s f) s' = (if s' = s then map_option f (map_of ap s) else map_of ap s')"
  by (induction ap) auto

lemma map_of_fold_modify:
  "map_of (fold (\<lambda>a ap. modify ap s (g a)) as ap) s' =
     (if s' = s then map_option (fold g as) (map_of ap s) else map_of ap s')"
proof (induction as arbitrary: ap)
  case Nil
  then show ?case by (cases "map_of ap s") auto
next
  case (Cons a as)
  then show ?case by (cases "map_of ap s") (auto simp: map_of_modify)
qed

lemma map_of_insert_index:
  "map_of ap k = None \<Longrightarrow>
   map_of (insert_index ap k v) k' = (if k' = k then Some v else map_of ap k')"
  by (induction ap) (auto split: if_splits)

lemma map_of_insert_key:
  "map_of ap k = None \<Longrightarrow>
   map_of (insert_key ap k v) k' = (if k' = k then Some v else map_of ap k')"
  by (auto simp: insert_key_def map_of_insert_index map_add_def split: option.splits)

lemma map_of_ensure_subject:
  "map_of (ensure_subject s ap) s' =
     (if s' = s \<and> map_of ap s = None \<and> \<not> inherited s
      then Some \<lparr>SubjectPolicy.actions = [], permissions = []\<rparr> else map_of ap s')"
  by (simp add: ensure_subject_def map_of_insert_key)

lemma fold_result_modify_entry_own:
  "map_of ap s = Some config \<Longrightarrow>
   fold_result (\<lambda>a ap. modify_entry ap s (g a)) as ap =
     Inr (fold (\<lambda>a ap. modify ap s (g a)) as ap)"
proof (induction as arbitrary: ap config)
  case Nil
  then show ?case by simp
next
  case (Cons a as)
  from Cons.prems have "map_of (modify ap s (g a)) s = Some (g a config)"
    by (simp add: map_of_modify)
  then have "fold_result (\<lambda>a ap. modify_entry ap s (g a)) as (modify ap s (g a)) =
     Inr (fold (\<lambda>a ap. modify ap s (g a)) as (modify ap s (g a)))"
    by (rule Cons.IH)
  with Cons.prems show ?case by (simp add: modify_entry_def)
qed

lemma fold_result_modify_entry_none:
  "map_of ap s = None \<Longrightarrow>
   fold_result (\<lambda>a ap. modify_entry ap s (g a)) as ap = (if as = [] then Inr ap else Inl TypeError)"
  by (cases as) (simp_all add: modify_entry_def)

lemma fold_push_action_distinct:
  "distinct (SubjectPolicy.actions config) \<Longrightarrow>
   distinct (SubjectPolicy.actions (fold push_action as config))"
  by (induction as arbitrary: config) (auto simp: push_action_def)

lemma fold_push_action_permissions:
  "permissions (fold push_action as config) = permissions config"
  by (induction as arbitrary: config) (auto simp: push_action_def)

lemma fold_push_permission_actions:
  "SubjectPolicy.actions (fold (push_permission policy s) as config) = SubjectPolicy.actions config"
  by (induction as arbitrary: config) (auto simp: push_permission_def)

lemma fold_push_permission_permissions:
  "permissions (fold (push_permission policy s) as config) =
     permissions config @
     map (\<lambda>act. \<lparr>PolicyRule.action = act, subject = s,
                  conditions = PolicyMeta.conditions policy\<rparr>) as"
  by (induction as arbitrary: config) (auto simp: push_permission_def)

text \<open>A subject that reads as an inherited member: nothing happens, or the loop throws.\<close>

lemma add_subject_inherited:
  assumes "map_of ap s = None" and "inherited s"
  shows "add_subject policy s ap =
           (if PolicyMeta.actions policy = [] then Inr ap else Inl TypeError)"
  using assms
  by (simp add: add_subject_def ensure_subject_def fold_result_modify_entry_none)

text \<open>Any other subject: its entry is made if missing and both loops run through.\<close>

lemma add_subject_own:
  assumes "map_of ap s \<noteq> None \<or> \<not> inherited s"
  shows "\<exists>ap'. add_subject policy s ap = Inr ap' \<and>
           (\<forall>s'. map_of ap' s' =
              (if s' = s
               then Some (fold (push_permission policy s) (PolicyMeta.actions policy)
                      (fold push_action (PolicyMeta.actions policy)
                        (case map_of ap s of
                           None \<Rightarrow> \<lparr>SubjectPolicy.actions = [], permissions = []\<rparr>
                         | Some config \<Rightarrow> config)))
               else map_of ap s'))"
proof -
  let ?c0 = "case map_of ap s of
               None \<Rightarrow> \<lparr>SubjectPolicy.actions = [], permissions = []\<rparr>
             | Some config \<Rightarrow> config"
  let ?ap1 = "ensure_subject s ap"
  let ?ap2 = "fold (\<lambda>a ap. modify ap s (push_action a)) (PolicyMeta.actions policy) ?ap1"
  let ?ap3 = "fold (\<lambda>a ap. modify ap s (push_permission policy s a))
                (PolicyMeta.actions policy) ?ap2"
  from assms have 1: "map_of ?ap1 s = Some ?c0"
    by (auto simp: map_of_ensure_subject)
  then have r1: "fold_result (\<lambda>a ap. modify_entry ap s (push_action a))
                   (PolicyMeta.actions policy) ?ap1 = Inr ?ap2"
    by (rule fold_result_modify_entry_own)
  from 1 have 2: "map_of ?ap2 s = Some (fold push_action (PolicyMeta.actions policy) ?c0)"
    by (simp add: map_of_fold_modify)
  then have r2: "fold_result (\<lambda>a ap. modify_entry ap s (push_permission policy s a))
                   (PolicyMeta.actions policy) ?ap2 = Inr ?ap3"
    by (rule fold_result_modify_entry_own)
  from r1 r2 have "add_subject policy s ap = Inr ?ap3"
    by (simp add: add_subject_def Let_def)
  moreover have "\<forall>s'. map_of ?ap3 s' =
              (if s' = s
               then Some (fold (push_permission policy s) (PolicyMeta.actions policy)
                      (fold push_action (PolicyMeta.actions policy) ?c0))
               else map_of ap s')"
    using 1 by (simp add: map_of_fold_modify map_of_ensure_subject)
  ultimately show ?thesis by blast
qed

lemma sound_add_subject:
  assumes "sound ap expected" and "add_subject policy s ap = Inr ap'"
  shows "sound ap' (\<lambda>s'. expected s' @ (if s' = s then declared_for policy s' else []))"
proof (cases "map_of ap s = None \<and> inherited s")
  case True
  with assms(2) have "PolicyMeta.actions policy = []" and "ap' = ap"
    by (auto simp: add_subject_inherited split: if_splits)
  then have "(\<lambda>s'. expected s' @ (if s' = s then declared_for policy s' else [])) = expected"
    by (auto simp: declared_for_def)
  with assms(1) \<open>ap' = ap\<close> show ?thesis by simp
next
  case False
  then have own: "map_of ap s \<noteq> None \<or> \<not> inherited s" by auto
  from add_subject_own [OF own, of policy] assms(2)
  have m: "\<forall>s'. map_of ap' s' =
              (if s' = s
               then Some (fold (push_permission policy s) (PolicyMeta.actions policy)
                      (fold push_action (PolicyMeta.actions policy)
                        (case map_of ap s of
                           None \<Rightarrow> \<lparr>SubjectPolicy.actions = [], permissions = []\<rparr>
                         | Some config \<Rightarrow> config)))
               else map_of ap s')"
    by auto
  show ?thesis
    unfolding sound_def
  proof
    fix s'
    from assms(1) have e: "case map_of ap s' of
             None \<Rightarrow> expected s' = []
           | Some config \<Rightarrow> distinct (SubjectPolicy.actions config) \<and>
                           permissions config = expected s' \<and> \<not> inherited s'"
      unfolding sound_def by blast
    show "case map_of ap' s' of
          None \<Rightarrow> expected s' @ (if s' = s then declared_for policy s' else []) = []
        | Some config \<Rightarrow> distinct (SubjectPolicy.actions config) \<and>
            permissions config = expected s' @ (if s' = s then declared_for policy s' else []) \<and>
            \<not> inherited s'"
    proof (cases "s' = s")
      case False
      with e m show ?thesis by (simp split: option.splits)
    next
      case True
      with e m own show ?thesis
        by (cases "map_of ap s")
           (auto simp: fold_push_permission_actions
              fold_push_permission_permissions fold_push_action_permissions
              fold_push_action_distinct declared_for_def)
    qed
  qed
qed

lemma sound_fold_add_subject:
  "sound ap expected \<Longrightarrow> fold_result (add_subject policy) subs ap = Inr ap' \<Longrightarrow>
   sound ap'
     (\<lambda>s'. expected s' @ concat (map (\<lambda>s. if s = s' then declared_for policy s else []) subs))"
proof (induction subs arbitrary: ap expected)
  case Nil
  then show ?case by simp
next
  case (Cons s subs)
  from Cons.prems(2) obtain ap1 where
    1: "add_subject policy s ap = Inr ap1"
    and 2: "fold_result (add_subject policy) subs ap1 = Inr ap'"
    by (auto split: sum.splits)
  from Cons.prems(1) 1 have "sound ap1
           (\<lambda>s'. expected s' @ (if s' = s then declared_for policy s' else []))"
    by (rule sound_add_subject)
  from this 2 have "sound ap'
     (\<lambda>s'. (expected s' @ (if s' = s then declared_for policy s' else [])) @
            concat (map (\<lambda>s. if s = s' then declared_for policy s else []) subs))"
    by (rule Cons.IH)
  moreover have "(\<lambda>s'. (expected s' @ (if s' = s then declared_for policy s' else [])) @
            concat (map (\<lambda>s. if s = s' then declared_for policy s else []) subs)) =
        (\<lambda>s'. expected s' @
            concat (map (\<lambda>s. if s = s' then declared_for policy s else []) (s # subs)))"
    by (rule ext) auto
  ultimately show ?case by simp
qed

lemma sound_fold_add_policy:
  "sound ap expected \<Longrightarrow> fold_result add_policy ps ap = Inr ap' \<Longrightarrow>
   sound ap' (\<lambda>s'. expected s' @ declared_permissions s' ps)"
proof (induction ps arbitrary: ap expected)
  case Nil
  then show ?case by (simp add: declared_permissions_def)
next
  case (Cons policy ps)
  from Cons.prems(2) obtain ap1 where
    0: "add_policy policy ap = Inr ap1"
    and 2: "fold_result add_policy ps ap1 = Inr ap'"
    by (auto split: sum.splits)
  from 0 have 1: "fold_result (add_subject policy) (subjects policy) ap = Inr ap1"
    by (simp add: add_policy_def)
  from Cons.prems(1) 1 have "sound ap1
     (\<lambda>s'. expected s' @
        concat (map (\<lambda>s. if s = s' then declared_for policy s else []) (subjects policy)))"
    by (rule sound_fold_add_subject)
  from this 2 have "sound ap'
     (\<lambda>s'. (expected s' @
        concat (map (\<lambda>s. if s = s' then declared_for policy s else []) (subjects policy))) @
        declared_permissions s' ps)"
    by (rule Cons.IH)
  moreover have "(\<lambda>s'. (expected s' @
        concat (map (\<lambda>s. if s = s' then declared_for policy s else []) (subjects policy))) @
        declared_permissions s' ps) =
      (\<lambda>s'. expected s' @ declared_permissions s' (policy # ps))"
    by (rule ext) (simp add: declared_permissions_def)
  ultimately show ?case by simp
qed

lemma sound_extractAppPolicy:
  assumes "extractAppPolicy contract = Inr schema"
  shows "sound schema (\<lambda>s. declared_permissions s (policies contract))"
proof -
  have "sound [] (\<lambda>s. [])" by (simp add: sound_def)
  moreover from assms have "fold_result add_policy (policies contract) [] = Inr schema"
    by (simp add: extractAppPolicy_fold)
  ultimately have "sound schema (\<lambda>s'. [] @ declared_permissions s' (policies contract))"
    by (rule sound_fold_add_policy)
  then show ?thesis by simp
qed

text \<open>Extraction runs to its end when no annotation with an action names an inherited member.\<close>

lemma add_subject_succeeds:
  assumes "PolicyMeta.actions policy = [] \<or> \<not> inherited s"
  shows "\<exists>ap'. add_subject policy s ap = Inr ap'"
proof (cases "map_of ap s = None \<and> inherited s")
  case True
  with assms show ?thesis by (simp add: add_subject_inherited)
next
  case False
  then have "map_of ap s \<noteq> None \<or> \<not> inherited s" by auto
  from add_subject_own [OF this, of policy] show ?thesis by blast
qed

lemma fold_add_subject_succeeds:
  "PolicyMeta.actions policy = [] \<or> list_all (\<lambda>s. \<not> inherited s) subs \<Longrightarrow>
   \<exists>ap'. fold_result (add_subject policy) subs ap = Inr ap'"
proof (induction subs arbitrary: ap)
  case Nil
  then show ?case by simp
next
  case (Cons s subs)
  then have "PolicyMeta.actions policy = [] \<or> \<not> inherited s" by auto
  from add_subject_succeeds [OF this, of ap]
  obtain ap1 where 1: "add_subject policy s ap = Inr ap1" by blast
  from Cons.prems have "PolicyMeta.actions policy = [] \<or> list_all (\<lambda>s. \<not> inherited s) subs"
    by auto
  from Cons.IH [OF this, of ap1] 1 show ?case by simp
qed

lemma fold_add_policy_succeeds:
  "extractable ps \<Longrightarrow> \<exists>ap'. fold_result add_policy ps ap = Inr ap'"
proof (induction ps arbitrary: ap)
  case Nil
  then show ?case by simp
next
  case (Cons policy ps)
  then have "PolicyMeta.actions policy = [] \<or>
             list_all (\<lambda>s. \<not> inherited s) (subjects policy)"
    by (simp add: extractable_def)
  from fold_add_subject_succeeds [OF this, of ap]
  obtain ap1 where 1: "add_policy policy ap = Inr ap1"
    by (auto simp: add_policy_def)
  from Cons.prems have "extractable ps" by (simp add: extractable_def)
  from Cons.IH [OF this, of ap1] 1 show ?case by simp
qed

text \<open>
  Claim C5: for a route tree whose policy-bearing nodes are, in depth-first order, node A
  \<open>{subjects: ["Post"], actions: ["read"]}\<close> and node B \<open>{subjects: ["Post"], actions:
  ["delete"], conditions: {authorId: "{{userId}}"}}\<close>, \<open>extractAppPolicy\<close> returns exactly
  the schema with the single subject Post, actions read then delete, and the two permission
  rules in that order.
\<close>

theorem extractAppPolicy_two_routes:
  assumes "policies contract =
     [\<lparr>subjects = [''Post''], actions = [''read''], conditions = None, description = d1\<rparr>,
      \<lparr>subjects = [''Post''], actions = [''delete''],
        conditions = Some [(''authorId'', JStr ''{{userId}}'')], description = d2\<rparr>]"
  shows "extractAppPolicy contract =
     Inr [(''Post'',
       \<lparr>SubjectPolicy.actions = [''read'', ''delete''],
        permissions =
          [\<lparr>PolicyRule.action = ''read'', subject = ''Post'', conditions = None\<rparr>,
           \<lparr>PolicyRule.action = ''delete'', subject = ''Post'',
            conditions = Some [(''authorId'', JStr ''{{userId}}'')]\<rparr>]\<rparr>)]"
proof -
  have i: "\<not> inherited ''Post''"
    by (simp add: inherited_def object_prototype_names_def)
  have k: "\<not> is_array_index ''Post''"
    by (simp add: is_array_index_def)
  show ?thesis
    unfolding extractAppPolicy_fold assms
    by (simp add: add_policy_def add_subject_def ensure_subject_def insert_key_def i k
        modify_entry_def push_action_def push_permission_def)
qed

theorem extractAppPolicy_two_routes_witness:
  "policies
     [(''posts'', Router
        [(''viewPosts'', Route \<lparr>subjects = [''Post''], actions = [''read''],
                                conditions = None, description = ''View any post''\<rparr>),
         (''version'', Leaf),
         (''own'', Router
            [(''deletePost'', Route \<lparr>subjects = [''Post''], actions = [''delete''],
                conditions = Some [(''authorId'', JStr ''{{userId}}'')],
                description = ''Delete own post''\<rparr>)])])] =
     [\<lparr>subjects = [''Post''], actions = [''read''], conditions = None,
       description = ''View any post''\<rparr>,
      \<lparr>subjects = [''Post''], actions = [''delete''],
        conditions = Some [(''authorId'', JStr ''{{userId}}'')],
        description = ''Delete own post''\<rparr>]
   \<and> extractAppPolicy
     [(''posts'', Router
        [(''viewPosts'', Route \<lparr>subjects = [''Post''], actions = [''read''],
                                conditions = None, description = ''View any post''\<rparr>),
         (''version'', Leaf),
         (''own'', Router
            [(''deletePost'', Route \<lparr>subjects = [''Post''], actions = [''delete''],
                conditions = Some [(''authorId'', JStr ''{{userId}}'')],
                description = ''Delete own post''\<rparr>)])])] =
     Inr [(''Post'',
       \<lparr>SubjectPolicy.actions = [''read'', ''delete''],
        permissions =
          [\<lparr>PolicyRule.action = ''read'', subject = ''Post'', conditions = None\<rparr>,
           \<lparr>PolicyRule.action = ''delete'', subject = ''Post'',
            conditions = Some [(''authorId'', JStr ''{{userId}}'')]\<rparr>]\<rparr>)]"
proof -
  let ?t = "[(''posts'', Router
        [(''viewPosts'', Route \<lparr>subjects = [''Post''], actions = [''read''],
                                conditions = None, description = ''View any post''\<rparr>),
         (''version'', Leaf),
         (''own'', Router
            [(''deletePost'', Route \<lparr>subjects = [''Post''], actions = [''delete''],
                conditions = Some [(''authorId'', JStr ''{{userId}}'')],
                description = ''Delete own post''\<rparr>)])])]"
  have p: "policies ?t =
     [\<lparr>subjects = [''Post''], actions = [''read''], conditions = None,
       description = ''View any post''\<rparr>,
      \<lparr>subjects = [''Post''], actions = [''delete''],
        conditions = Some [(''authorId'', JStr ''{{userId}}'')],
        description = ''Delete own post''\<rparr>]"
    by simp
  from p extractAppPolicy_two_routes [OF p] show ?thesis by (rule conjI)
qed

text \<open>
  Claim C6: for every route tree, in the schema \<open>extractAppPolicy\<close> produces each subject's
  \<open>actions\<close> list has no duplicates, while its \<open>permissions\<close> list is not deduplicated:
  every subject with a declared rule has an entry, and the entry holds every declared rule
  of the subject, in traversal order, as often as it is declared. A schema is produced
  whenever no annotation with an action names a subject that reads as a member of
  \<open>Object.prototype\<close>.
\<close>

theorem extractAppPolicy_actions_distinct_permissions_kept:
  "(extractable (policies contract) \<longrightarrow> (\<exists>schema. extractAppPolicy contract = Inr schema))
   \<and> (\<forall>schema. extractAppPolicy contract = Inr schema \<longrightarrow>
        (\<forall>subj config. map_of schema subj = Some config \<longrightarrow>
           distinct (SubjectPolicy.actions config) \<and>
           permissions config = declared_permissions subj (policies contract))
        \<and> (\<forall>subj. declared_permissions subj (policies contract) \<noteq> [] \<longrightarrow>
             (\<exists>config. map_of schema subj = Some config)))"
proof (intro conjI impI allI)
  assume "extractable (policies contract)"
  then show "\<exists>schema. extractAppPolicy contract = Inr schema"
    unfolding extractAppPolicy_fold by (rule fold_add_policy_succeeds)
next
  fix schema subj config
  assume "extractAppPolicy contract = Inr schema" and m: "map_of schema subj = Some config"
  then have "sound schema (\<lambda>s. declared_permissions s (policies contract))"
    by (simp add: sound_extractAppPolicy)
  then have "case map_of schema subj of
             None \<Rightarrow> declared_permissions subj (policies contract) = []
           | Some config \<Rightarrow> distinct (SubjectPolicy.actions config) \<and>
               permissions config = declared_permissions subj (policies contract) \<and>
               \<not> inherited subj"
    unfolding sound_def by blast
  with m show "distinct (SubjectPolicy.actions config)"
    and "permissions config = declared_permissions subj (policies contract)"
    by simp_all
next
  fix schema subj
  assume "extractAppPolicy contract = Inr schema"
    and d: "declared_permissions subj (policies contract) \<noteq> []"
  then have "sound schema (\<lambda>s. declared_permissions s (policies contract))"
    by (simp add: sound_extractAppPolicy)
  then have "case map_of schema subj of
             None \<Rightarrow> declared_permissions subj (policies contract) = []
           | Some config \<Rightarrow> distinct (SubjectPolicy.actions config) \<and>
               permissions config = declared_permissions subj (policies contract) \<and>
               \<not> inherited subj"
    unfolding sound_def by blast
  with d show "\<exists>config. map_of schema subj = Some config"
    by (cases "map_of schema subj") simp_all
qed

text \<open>Two routes declaring the same rule: one action, two permission entries.\<close>

theorem extractAppPolicy_actions_distinct_permissions_kept_witness:
  "extractable (policies
      [(''viewPosts'', Route \<lparr>subjects = [''Post''], actions = [''read''],
                              conditions = None, description = ''View any post''\<rparr>),
       (''listPosts'', Route \<lparr>subjects = [''Post''], actions = [''read''],
                              conditions = None, description = ''List posts''\<rparr>)])
   \<and> extractAppPolicy
      [(''viewPosts'', Route \<lparr>subjects = [''Post''], actions = [''read''],
                              conditions = None, description = ''View any post''\<rparr>),
       (''listPosts'', Route \<lparr>subjects = [''Post''], actions = [''read''],
                              conditions = None, description = ''List posts''\<rparr>)]
     = Inr [(''Post'', \<lparr>SubjectPolicy.actions = [''read''],
             permissions =
               [\<lparr>PolicyRule.action = ''read'', subject = ''Post'', conditions = None\<rparr>,
                \<lparr>PolicyRule.action = ''read'', subject = ''Post'', conditions = None\<rparr>]\<rparr>)]
   \<and> distinct [''read'']
   \<and> declared_permissions ''Post'' (policies
      [(''viewPosts'', Route \<lparr>subjects = [''Post''], actions = [''read''],
                              conditions = None, description = ''View any post''\<rparr>),
       (''listPosts'', Route \<lparr>subjects = [''Post''], actions = [''read''],
                              conditions = None, description = ''List posts''\<rparr>)])
     = [\<lparr>PolicyRule.action = ''read'', subject = ''Post'', conditions = None\<rparr>,
        \<lparr>PolicyRule.action = ''read'', subject = ''Post'', conditions = None\<rparr>]"
proof -
  let ?t = "[(''viewPosts'', Route \<lparr>subjects = [''Post''], actions = [''read''],
                              conditions = None, description = ''View any post''\<rparr>),
       (''listPosts'', Route \<lparr>subjects = [''Post''], actions = [''read''],
                              conditions = None, description = ''List posts''\<rparr>)]"
  let ?r = "\<lparr>PolicyRule.action = ''read'', subject = ''Post'', conditions = None\<rparr>"
  let ?s = "[(''Post'', \<lparr>SubjectPolicy.actions = [''read''], permissions = [?r, ?r]\<rparr>)]"
  have i: "\<not> inherited ''Post''"
    by (simp add: inherited_def object_prototype_names_def)
  have k: "\<not> is_array_index ''Post''"
    by (simp add: is_array_index_def)
  have x: "extractable (policies ?t)"
    by (simp add: extractable_def i)
  have e: "extractAppPolicy ?t = Inr ?s"
    by (simp add: extractAppPolicy_def add_policy_def add_subject_def ensure_subject_def
        insert_key_def i k modify_entry_def push_action_def push_permission_def)
  have m: "map_of ?s ''Post'' =
             Some \<lparr>SubjectPolicy.actions = [''read''], permissions = [?r, ?r]\<rparr>"
    by simp
  from extractAppPolicy_actions_distinct_permissions_kept [of ?t] e m
  have "distinct [''read''] \<and> [?r, ?r] = declared_permissions ''Post'' (policies ?t)"
    by (metis SubjectPolicy.select_convs(1) SubjectPolicy.select_convs(2))
  with x e show ?thesis by simp
qed

lemma fold_push_copy:
  "fold (\<lambda>permission rules.
           rules @ [\<lparr>PolicyRule.action = PolicyRule.action permission,
                      subject = PolicyRule.subject permission,
                      conditions = PolicyRule.conditions permission\<rparr>]) ps acc
   = acc @ ps"
  by (induction ps arbitrary: acc) simp_all

lemma fold_entries_concat:
  "fold (\<lambda>entry rules.
           fold (\<lambda>permission rules.
                   rules @ [\<lparr>PolicyRule.action = PolicyRule.action permission,
                              subject = PolicyRule.subject permission,
                              conditions = PolicyRule.conditions permission\<rparr>])
             (permissions (snd entry)) rules) ap acc
   = acc @ concat (map (\<lambda>entry. permissions (snd entry)) ap)"
  by (induction ap arbitrary: acc) (simp_all add: fold_push_copy)

text \<open>
  Claim C7: for every schema, \<open>createDefaultUserPolicy\<close> returns the concatenation of the
  subjects' \<open>permissions\<close> lists in the schema's iteration order, each rule with the action,
  subject and conditions of its schema entry; its length is the sum of the lists' lengths.
\<close>

theorem createDefaultUserPolicy_flattens:
  "createDefaultUserPolicy appPolicy = concat (map (\<lambda>entry. permissions (snd entry)) appPolicy)
   \<and> length (createDefaultUserPolicy appPolicy)
       = sum_list (map (\<lambda>entry. length (permissions (snd entry))) appPolicy)"
proof -
  have 1: "createDefaultUserPolicy appPolicy
             = concat (map (\<lambda>entry. permissions (snd entry)) appPolicy)"
    unfolding createDefaultUserPolicy_def by (simp add: fold_entries_concat)
  have "length (concat (map (\<lambda>entry. permissions (snd entry)) appPolicy))
          = sum_list (map (\<lambda>entry. length (permissions (snd entry))) appPolicy)"
    by (simp add: length_concat comp_def)
  with 1 show ?thesis by simp
qed

section \<open>Facts about abilities\<close>

lemma register_rule_append:
  "register_rule context rule registered = registered @ [registered_as context rule]"
  by (simp add: register_rule_def registered_as_def builder_can_def builder_cannot_def Let_def)

lemma fold_register_rule:
  "fold (register_rule context) userRules registered =
     registered @ map (registered_as context) userRules"
  by (induction userRules arbitrary: registered) (simp_all add: register_rule_append)

lemma registered_rules_map:
  "registered_rules userRules context = map (registered_as context) userRules"
  by (simp add: registered_rules_def fold_register_rule)

lemma build_cases:
  "build registered =
     (if \<exists>rule \<in> set registered. fields' rule = Some [] then Inl EmptyFieldsError
      else Inr (Ability registered))"
  by (simp add: build_def list_ex_iff)

lemma fold_scan_no_match:
  "\<forall>r \<in> set rs. \<not> rule_matches r act subj inst field \<Longrightarrow>
   fold (scan_step act subj inst field) rs running = running"
  by (induction rs arbitrary: running) (simp_all add: scan_step_def)

lemma fold_scan_last_match:
  assumes "rule_matches rule act subj inst field"
    and "\<forall>r \<in> set post. \<not> rule_matches r act subj inst field"
  shows "fold (scan_step act subj inst field) (pre @ [rule] @ post) running =
           (if inverted rule = Some True then Deny else Grant)"
proof -
  have "fold (scan_step act subj inst field) (pre @ [rule] @ post) running =
        fold (scan_step act subj inst field) post
          (scan_step act subj inst field rule (fold (scan_step act subj inst field) pre running))"
    by simp
  also have "\<dots> = scan_step act subj inst field rule
                     (fold (scan_step act subj inst field) pre running)"
    using assms(2) by (rule fold_scan_no_match)
  also have "\<dots> = (if inverted rule = Some True then Deny else Grant)"
    using assms(1) by (simp add: scan_step_def)
  finally show ?thesis .
qed

lemma can_last_match:
  assumes "rule_matches rule act subj inst field"
    and "\<forall>r \<in> set post. \<not> rule_matches r act subj inst field"
  shows "can (Ability (pre @ [rule] @ post)) act subj inst field \<longleftrightarrow>
           inverted rule \<noteq> Some True"
  unfolding can_def AppAbility.sel
  by (simp only: fold_scan_last_match [OF assms]) simp

text \<open>
  Claim C1 says the forbid rule wins regardless of declaration order. With the two rules of
  the example swapped, the grant is the last matching rule and the answer for an instance
  with \<open>authorId = 9\<close> is true.
\<close>

theorem forbid_declared_first_counterexample:
  "createAppAbility [forbid_delete_9, grant_delete] [(''userId'', JNum 1)]
     = Inr (Ability [forbid_delete_9, grant_delete])
   \<and> can (Ability [forbid_delete_9, grant_delete])
        ''delete'' ''Post'' [(''authorId'', JNum 9)] None"
  by (simp add: can_def createAppAbility_def registered_rules_def build_def register_rule_def
      builder_can_def builder_cannot_def present_def
      forbid_delete_9_def grant_delete_def scan_step_def rule_matches_def
      conditions_hold_def field_allowed_def obj_get_def interpolateConditions_def
      interpolate_step_def is_template_def any_action_def any_subject_def)

lemma delete_rules_registered:
  "createAppAbility [grant_delete, forbid_delete_9] context =
     Inr (Ability [grant_delete, forbid_delete_9])"
  by (simp add: createAppAbility_def registered_rules_map build_def registered_as_def
      present_def grant_delete_def forbid_delete_9_def
      interpolateConditions_def interpolate_step_def is_template_def)

lemma forbid_delete_9_matches:
  "rule_matches forbid_delete_9 ''delete'' ''Post'' inst None \<longleftrightarrow>
     obj_get inst ''authorId'' = JNum 9"
  by (simp add: rule_matches_def forbid_delete_9_def conditions_hold_def field_allowed_def)

lemma grant_delete_matches: "rule_matches grant_delete ''delete'' ''Post'' inst None"
  by (simp add: rule_matches_def grant_delete_def conditions_hold_def field_allowed_def)

lemma forbid_delete_9_inverted: "inverted forbid_delete_9 = Some True"
  by (simp add: forbid_delete_9_def)

lemma grant_delete_not_inverted: "inverted grant_delete \<noteq> Some True"
  by (simp add: grant_delete_def)

text \<open>
  Claim C1 (amended): for the rule list [grant delete Post, forbid delete Post where
  \<open>authorId = 9\<close>] the ability built by \<open>createAppAbility\<close> answers false for every
  instance whose \<open>authorId\<close> is 9 and true for every instance whose \<open>authorId\<close> is 7.
  Declaration order matters: the last matching rule decides, so a matching inverted rule
  overrides every grant declared before it, and a matching grant declared after it
  re-grants.
\<close>

theorem forbid_overrides_earlier_grant:
  "(obj_get inst ''authorId'' = JNum 9 \<longrightarrow>
      (\<exists>ability. createAppAbility [grant_delete, forbid_delete_9] context = Inr ability \<and>
         \<not> can ability ''delete'' ''Post'' inst None))
   \<and> (obj_get inst ''authorId'' = JNum 7 \<longrightarrow>
      (\<exists>ability. createAppAbility [grant_delete, forbid_delete_9] context = Inr ability \<and>
         can ability ''delete'' ''Post'' inst None))
   \<and> (rule_matches rule act subj inst' field \<and>
       (\<forall>later \<in> set post. \<not> rule_matches later act subj inst' field) \<longrightarrow>
      (can (Ability (pre @ [rule] @ post)) act subj inst' field \<longleftrightarrow>
         inverted rule \<noteq> Some True))"
proof (intro conjI impI)
  assume "obj_get inst ''authorId'' = JNum 9"
  then have "\<not> can (Ability [grant_delete, forbid_delete_9]) ''delete'' ''Post'' inst None"
    unfolding can_def AppAbility.sel
    by (simp add: scan_step_def forbid_delete_9_matches forbid_delete_9_inverted)
  with delete_rules_registered
  show "\<exists>ability. createAppAbility [grant_delete, forbid_delete_9] context = Inr ability \<and>
          \<not> can ability ''delete'' ''Post'' inst None"
    by blast
next
  assume "obj_get inst ''authorId'' = JNum 7"
  then have "can (Ability [grant_delete, forbid_delete_9]) ''delete'' ''Post'' inst None"
    unfolding can_def AppAbility.sel
    by (simp add: scan_step_def forbid_delete_9_matches grant_delete_matches
        grant_delete_not_inverted)
  with delete_rules_registered
  show "\<exists>ability. createAppAbility [grant_delete, forbid_delete_9] context = Inr ability \<and>
          can ability ''delete'' ''Post'' inst None"
    by blast
next
  assume "rule_matches rule act subj inst' field \<and>
       (\<forall>later \<in> set post. \<not> rule_matches later act subj inst' field)"
  then show "can (Ability (pre @ [rule] @ post)) act subj inst' field \<longleftrightarrow>
               inverted rule \<noteq> Some True"
    using can_last_match by blast
qed

theorem forbid_overrides_earlier_grant_witness:
  "createAppAbility [grant_delete, forbid_delete_9] [(''userId'', JNum 1)]
     = Inr (Ability [grant_delete, forbid_delete_9])
   \<and> \<not> can (Ability [grant_delete, forbid_delete_9])
        ''delete'' ''Post'' [(''id'', JNum 2), (''authorId'', JNum 9)] None
   \<and> can (Ability [grant_delete, forbid_delete_9])
        ''delete'' ''Post'' [(''id'', JNum 1), (''authorId'', JNum 7)] None
   \<and> \<not> can (Ability ([grant_delete] @ [forbid_delete_9] @ []))
        ''delete'' ''Post'' [(''authorId'', JNum 9)] None
   \<and> can (Ability ([forbid_delete_9] @ [grant_delete] @ []))
        ''delete'' ''Post'' [(''authorId'', JNum 9)] None"
proof -
  let ?ctx = "[(''userId'', JNum 1)]"
  have a: "obj_get [(''id'', JNum 2), (''authorId'', JNum 9)] ''authorId'' = JNum 9"
    by (simp add: obj_get_def)
  have b: "obj_get [(''id'', JNum 1), (''authorId'', JNum 7)] ''authorId'' = JNum 7"
    by (simp add: obj_get_def)
  have c: "rule_matches forbid_delete_9 ''delete'' ''Post'' [(''authorId'', JNum 9)] None \<and>
           (\<forall>later \<in> set []. \<not> rule_matches later ''delete'' ''Post'' [(''authorId'', JNum 9)] None)"
    by (simp add: forbid_delete_9_matches obj_get_def)
  have d: "rule_matches grant_delete ''delete'' ''Post'' [(''authorId'', JNum 9)] None \<and>
           (\<forall>later \<in> set []. \<not> rule_matches later ''delete'' ''Post'' [(''authorId'', JNum 9)] None)"
    by (simp add: grant_delete_matches)
  have i1: "inverted forbid_delete_9 = Some True" by (simp add: forbid_delete_9_def)
  have i2: "inverted grant_delete \<noteq> Some True" by (simp add: grant_delete_def)
  have r: "createAppAbility [grant_delete, forbid_delete_9] ?ctx
             = Inr (Ability [grant_delete, forbid_delete_9])"
    by (rule delete_rules_registered)
  from forbid_overrides_earlier_grant
         [of "[(''id'', JNum 2), (''authorId'', JNum 9)]" ?ctx
             forbid_delete_9 "''delete''" "''Post''" "[(''authorId'', JNum 9)]" None "[]"
             "[grant_delete]"] a c i1 r
  have 1: "\<not> can (Ability [grant_delete, forbid_delete_9])
        ''delete'' ''Post'' [(''id'', JNum 2), (''authorId'', JNum 9)] None"
    and 3: "\<not> can (Ability ([grant_delete] @ [forbid_delete_9] @ []))
        ''delete'' ''Post'' [(''authorId'', JNum 9)] None"
    by auto
  from forbid_overrides_earlier_grant
         [of "[(''id'', JNum 1), (''authorId'', JNum 7)]" ?ctx
             grant_delete "''delete''" "''Post''" "[(''authorId'', JNum 9)]" None "[]"
             "[forbid_delete_9]"] b d i2 r
  have 2: "can (Ability [grant_delete, forbid_delete_9])
        ''delete'' ''Post'' [(''id'', JNum 1), (''authorId'', JNum 7)] None"
    and 4: "can (Ability ([forbid_delete_9] @ [grant_delete] @ []))
        ''delete'' ''Post'' [(''authorId'', JNum 9)] None"
    by auto
  from r 1 2 3 4 show ?thesis by (intro conjI)
qed









text \<open>
  Claim C10: an inverted rule is registered through \<open>cannot\<close> with its action, subject and
  interpolated conditions only; its \<open>fields\<close> list is dropped, so it denies the action for
  every queried field, whatever fields it declared, and it never makes the build fail. A
  rule that is not inverted is registered with its \<open>fields\<close>. (A rule without a subject is
  registered with its action alone, inverted or not.)
\<close>

theorem inverted_rule_discards_fields:
  "(inverted rule = Some True \<longrightarrow>
      registered_rules (pre @ [rule]) context =
        registered_rules pre context @
        [\<lparr>AppRawRule.action = AppRawRule.action rule,
          subject = (if present (AppRawRule.subject rule) then AppRawRule.subject rule
                     else None),
          conditions = (if present (AppRawRule.subject rule)
                        then (case AppRawRule.conditions rule of
                                Some c \<Rightarrow> interpolateConditions (Some c) context
                              | None \<Rightarrow> None)
                        else None),
          fields' = None, inverted = Some True, reason = None\<rparr>]
      \<and> (\<forall>built. createAppAbility pre context = Inr built \<longrightarrow>
           (\<exists>ability. createAppAbility (pre @ [rule]) context = Inr ability))
      \<and> (AppRawRule.action rule = Some act \<and> AppRawRule.subject rule = Some subj \<and>
         subj \<noteq> [] \<and>
         conditions_hold (case AppRawRule.conditions rule of
                            Some c \<Rightarrow> interpolateConditions (Some c) context
                          | None \<Rightarrow> None) inst \<longrightarrow>
         (\<forall>ability. createAppAbility (pre @ [rule]) context = Inr ability \<longrightarrow>
            \<not> can ability act subj inst field)))
   \<and> (inverted rule \<noteq> Some True \<longrightarrow>
      registered_rules (pre @ [rule]) context =
        registered_rules pre context @
        [\<lparr>AppRawRule.action = AppRawRule.action rule,
          subject = (if present (AppRawRule.subject rule) then AppRawRule.subject rule
                     else None),
          conditions = (if present (AppRawRule.subject rule)
                        then (case AppRawRule.conditions rule of
                                Some c \<Rightarrow> interpolateConditions (Some c) context
                              | None \<Rightarrow> None)
                        else None),
          fields' = (if present (AppRawRule.subject rule) then fields' rule else None),
          inverted = None, reason = None\<rparr>])"
proof (intro conjI impI allI)
  assume "inverted rule = Some True"
  then show "registered_rules (pre @ [rule]) context =
        registered_rules pre context @
        [\<lparr>AppRawRule.action = AppRawRule.action rule,
          subject = (if present (AppRawRule.subject rule) then AppRawRule.subject rule
                     else None),
          conditions = (if present (AppRawRule.subject rule)
                        then (case AppRawRule.conditions rule of
                                Some c \<Rightarrow> interpolateConditions (Some c) context
                              | None \<Rightarrow> None)
                        else None),
          fields' = None, inverted = Some True, reason = None\<rparr>]"
    by (simp add: registered_rules_map registered_as_def)
next
  fix built
  assume inv: "inverted rule = Some True"
    and "createAppAbility pre context = Inr built"
  then have "\<not> (\<exists>r \<in> set (map (registered_as context) pre). fields' r = Some [])"
    by (simp add: createAppAbility_def registered_rules_map build_cases split: if_splits)
  moreover from inv have "fields' (registered_as context rule) \<noteq> Some []"
    by (simp add: registered_as_def)
  ultimately show "\<exists>ability. createAppAbility (pre @ [rule]) context = Inr ability"
    by (simp add: createAppAbility_def registered_rules_map build_cases)
next
  fix ability
  assume inv: "inverted rule = Some True"
    and q: "AppRawRule.action rule = Some act \<and> AppRawRule.subject rule = Some subj \<and>
         subj \<noteq> [] \<and>
         conditions_hold (case AppRawRule.conditions rule of
                            Some c \<Rightarrow> interpolateConditions (Some c) context
                          | None \<Rightarrow> None) inst"
    and "createAppAbility (pre @ [rule]) context = Inr ability"
  then have ab: "ability =
      Ability (map (registered_as context) pre @ [registered_as context rule] @ [])"
    by (simp add: createAppAbility_def registered_rules_map build_cases split: if_splits)
  from inv q have m: "rule_matches (registered_as context rule) act subj inst field"
    by (cases field)
       (simp_all add: rule_matches_def registered_as_def field_allowed_def present_def)
  from inv have i: "inverted (registered_as context rule) = Some True"
    by (simp add: registered_as_def)
  have "\<forall>r \<in> set []. \<not> rule_matches r act subj inst field" by simp
  with m have "can (Ability (map (registered_as context) pre @ [registered_as context rule] @ []))
                 act subj inst field \<longleftrightarrow> inverted (registered_as context rule) \<noteq> Some True"
    by (rule can_last_match)
  with i ab show "\<not> can ability act subj inst field"
    by simp
next
  assume "inverted rule \<noteq> Some True"
  then show "registered_rules (pre @ [rule]) context =
        registered_rules pre context @
        [\<lparr>AppRawRule.action = AppRawRule.action rule,
          subject = (if present (AppRawRule.subject rule) then AppRawRule.subject rule
                     else None),
          conditions = (if present (AppRawRule.subject rule)
                        then (case AppRawRule.conditions rule of
                                Some c \<Rightarrow> interpolateConditions (Some c) context
                              | None \<Rightarrow> None)
                        else None),
          fields' = (if present (AppRawRule.subject rule) then fields' rule else None),
          inverted = None, reason = None\<rparr>]"
    by (simp add: registered_rules_map registered_as_def)
qed

theorem inverted_rule_discards_fields_witness:
  "registered_rules ([grant_update] @ [forbid_update_title]) [(''userId'', JNum 7)] =
     [\<lparr>AppRawRule.action = Some ''update'', subject = Some ''Post'', conditions = None,
       fields' = Some [''title'', ''content''], inverted = None, reason = None\<rparr>,
      \<lparr>AppRawRule.action = Some ''update'', subject = Some ''Post'',
       conditions = Some [(''authorId'', JNum 7)], fields' = None, inverted = Some True,
       reason = None\<rparr>]
   \<and> createAppAbility ([grant_update] @ [forbid_update_title]) [(''userId'', JNum 7)] =
     Inr (Ability
     [\<lparr>AppRawRule.action = Some ''update'', subject = Some ''Post'', conditions = None,
       fields' = Some [''title'', ''content''], inverted = None, reason = None\<rparr>,
      \<lparr>AppRawRule.action = Some ''update'', subject = Some ''Post'',
       conditions = Some [(''authorId'', JNum 7)], fields' = None, inverted = Some True,
       reason = None\<rparr>])
   \<and> \<not> can (Ability
     [\<lparr>AppRawRule.action = Some ''update'', subject = Some ''Post'', conditions = None,
       fields' = Some [''title'', ''content''], inverted = None, reason = None\<rparr>,
      \<lparr>AppRawRule.action = Some ''update'', subject = Some ''Post'',
       conditions = Some [(''authorId'', JNum 7)], fields' = None, inverted = Some True,
       reason = None\<rparr>])
         ''update'' ''Post'' [(''id'', JNum 1), (''authorId'', JNum 7)] (Some ''content'')
   \<and> can (Ability [grant_update])
         ''update'' ''Post'' [(''id'', JNum 1), (''authorId'', JNum 7)] (Some ''content'')"
proof -
  let ?ctx = "[(''userId'', JNum 7)]"
  let ?inst = "[(''id'', JNum 1), (''authorId'', JNum 7)]"
  let ?rs = "[\<lparr>AppRawRule.action = Some ''update'', subject = Some ''Post'', conditions = None,
       fields' = Some [''title'', ''content''], inverted = None, reason = None\<rparr>,
      \<lparr>AppRawRule.action = Some ''update'', subject = Some ''Post'',
       conditions = Some [(''authorId'', JNum 7)], fields' = None, inverted = Some True,
       reason = None\<rparr>]"
  have ic: "interpolateConditions (Some [(''authorId'', JStr ''{{userId}}'')]) ?ctx =
              Some [(''authorId'', JNum 7)]"
    by (simp add: interpolateConditions_def interpolate_step_def is_template_def startsWith_def
      endsWith_def contextKey_def slice_def obj_get_def)
  have i: "inverted forbid_update_title = Some True" by (simp add: forbid_update_title_def)
  have q: "AppRawRule.action forbid_update_title = Some ''update'' \<and>
           AppRawRule.subject forbid_update_title = Some ''Post'' \<and> ''Post'' \<noteq> [] \<and>
           conditions_hold (case AppRawRule.conditions forbid_update_title of
                            Some c \<Rightarrow> interpolateConditions (Some c) ?ctx
                          | None \<Rightarrow> None) ?inst"
    by (simp add: forbid_update_title_def ic conditions_hold_def obj_get_def)
  have g: "registered_rules [grant_update] ?ctx = [grant_update]"
    by (simp add: registered_rules_map registered_as_def grant_update_def present_def)
  have e: "createAppAbility ([grant_update] @ [forbid_update_title]) ?ctx = Inr (Ability ?rs)"
    by (simp add: createAppAbility_def registered_rules_map build_def registered_as_def
        grant_update_def forbid_update_title_def present_def ic)
  from inverted_rule_discards_fields
         [of forbid_update_title "[grant_update]" ?ctx "''update''" "''Post''" ?inst
             "Some ''content''"] i q e
  have 1: "registered_rules ([grant_update] @ [forbid_update_title]) ?ctx =
        registered_rules [grant_update] ?ctx @
        [\<lparr>AppRawRule.action = AppRawRule.action forbid_update_title,
          subject = (if present (AppRawRule.subject forbid_update_title)
                     then AppRawRule.subject forbid_update_title else None),
          conditions = (if present (AppRawRule.subject forbid_update_title)
                        then (case AppRawRule.conditions forbid_update_title of
                                Some c \<Rightarrow> interpolateConditions (Some c) ?ctx
                              | None \<Rightarrow> None)
                        else None),
          fields' = None, inverted = Some True, reason = None\<rparr>]"
    and 2: "\<not> can (Ability ?rs) ''update'' ''Post'' ?inst (Some ''content'')"
    by blast+
  from 1 have 1: "registered_rules ([grant_update] @ [forbid_update_title]) ?ctx = ?rs"
    by (simp add: g) (simp add: forbid_update_title_def grant_update_def ic present_def)
  have 3: "can (Ability [grant_update]) ''update'' ''Post'' ?inst (Some ''content'')"
    by (simp add: can_def grant_update_def
        scan_step_def rule_matches_def conditions_hold_def field_allowed_def)
  from 1 e 2 3 show ?thesis by (intro conjI)
qed

section \<open>Facts about policy interpolation\<close>

lemma fold_step_heap:
  "fold (interpolate_step_heap context (length h)) es (h @ [x]) =
     h @ [fold (interpolate_step context) es x]"
  by (induction es arbitrary: x) (simp_all add: interpolate_step_heap_def interpolate_step_def)

lemma interpolateConditions_heap_Some:
  "interpolateConditions_heap (Some a) context h =
     (Some (length h), h @ [fold (interpolate_step context) (h ! a) (h ! a)])"
  by (simp add: interpolateConditions_heap_def Let_def fold_step_heap)

lemma interpolatePolicy_heap_fold:
  "interpolatePolicy_heap policy context h = fold (policy_step context) policy ([], h)"
  unfolding interpolatePolicy_heap_def policy_step_def by (simp add: case_prod_unfold)

lemma policy_step_rule:
  assumes "\<forall>a. PolicyRuleObj.conditions rule = Some a \<longrightarrow> a < length h"
  shows "\<exists>rule' new.
           policy_step context rule (out, h @ ext) = (out @ [rule'], h @ ext @ new) \<and>
           PolicyRuleObj.action rule' = PolicyRuleObj.action rule \<and>
           PolicyRuleObj.subject rule' = PolicyRuleObj.subject rule \<and>
           PolicyRuleObj.more rule' = PolicyRuleObj.more rule \<and>
           (\<forall>later. read_rule (h @ ext @ new @ later) rule' =
              (read_rule h rule)\<lparr>PolicyRule.conditions :=
                 interpolateConditions (PolicyRule.conditions (read_rule h rule)) context\<rparr>)"
proof (cases "PolicyRuleObj.conditions rule")
  case None
  then have "policy_step context rule (out, h @ ext) = (out @ [rule], h @ ext @ [])"
    by (simp add: policy_step_def interpolateConditions_heap_def)
  moreover from None have "\<forall>later. read_rule (h @ ext @ [] @ later) rule =
              (read_rule h rule)\<lparr>PolicyRule.conditions :=
                 interpolateConditions (PolicyRule.conditions (read_rule h rule)) context\<rparr>"
    by (simp add: read_rule_def interpolateConditions_def PolicyRule.extend_def)
  ultimately show ?thesis by blast
next
  case (Some a)
  with assms have a: "a < length h" by simp
  let ?obj = "fold (interpolate_step context) (h ! a) (h ! a)"
  let ?rule' = "rule\<lparr>PolicyRuleObj.conditions := Some (length (h @ ext))\<rparr>"
  from Some a have "policy_step context rule (out, h @ ext) = (out @ [?rule'], h @ ext @ [?obj])"
    by (simp add: policy_step_def interpolateConditions_heap_Some nth_append)
  moreover have "\<forall>later. read_rule (h @ ext @ [?obj] @ later) ?rule' =
              (read_rule h rule)\<lparr>PolicyRule.conditions :=
                 interpolateConditions (PolicyRule.conditions (read_rule h rule)) context\<rparr>"
    using Some
    by (simp add: read_rule_def interpolateConditions_def PolicyRule.extend_def nth_append)
  ultimately show ?thesis by (intro exI [of _ ?rule'] exI [of _ "[?obj]"]) simp
qed

lemma fold_policy_step:
  assumes "\<forall>rule \<in> set policy. \<forall>a. PolicyRuleObj.conditions rule = Some a \<longrightarrow> a < length h"
  shows "\<exists>res new.
           fold (policy_step context) policy (out, h @ ext) = (out @ res, h @ ext @ new) \<and>
           map PolicyRuleObj.action res = map PolicyRuleObj.action policy \<and>
           map PolicyRuleObj.subject res = map PolicyRuleObj.subject policy \<and>
           map PolicyRuleObj.more res = map PolicyRuleObj.more policy \<and>
           (\<forall>later. map (read_rule (h @ ext @ new @ later)) res =
              interpolatePolicy (map (read_rule h) policy) context)"
  using assms
proof (induction policy arbitrary: out ext)
  case Nil
  show ?case by (intro exI [of _ "[]"]) (simp add: interpolatePolicy_def)
next
  case (Cons rule policy)
  from Cons.prems have "\<forall>a. PolicyRuleObj.conditions rule = Some a \<longrightarrow> a < length h"
    by simp
  from policy_step_rule [OF this, of "context" out ext]
  obtain rule' new1 where
    s: "policy_step context rule (out, h @ ext) = (out @ [rule'], h @ ext @ new1)"
    and f: "PolicyRuleObj.action rule' = PolicyRuleObj.action rule"
      "PolicyRuleObj.subject rule' = PolicyRuleObj.subject rule"
      "PolicyRuleObj.more rule' = PolicyRuleObj.more rule"
    and r: "\<forall>later. read_rule (h @ ext @ new1 @ later) rule' =
              (read_rule h rule)\<lparr>PolicyRule.conditions :=
                 interpolateConditions (PolicyRule.conditions (read_rule h rule)) context\<rparr>"
    by blast
  from Cons.prems
  have "\<forall>rule \<in> set policy. \<forall>a. PolicyRuleObj.conditions rule = Some a \<longrightarrow> a < length h"
    by simp
  from Cons.IH [OF this, of "out @ [rule']" "ext @ new1"]
  obtain res new2 where
    s2: "fold (policy_step context) policy (out @ [rule'], h @ ext @ new1) =
           (out @ [rule'] @ res, h @ ext @ new1 @ new2)"
    and f2: "map PolicyRuleObj.action res = map PolicyRuleObj.action policy"
      "map PolicyRuleObj.subject res = map PolicyRuleObj.subject policy"
      "map PolicyRuleObj.more res = map PolicyRuleObj.more policy"
    and r2: "\<forall>later. map (read_rule (h @ ext @ new1 @ new2 @ later)) res =
              interpolatePolicy (map (read_rule h) policy) context"
    by auto
  have "fold (policy_step context) (rule # policy) (out, h @ ext) =
          (out @ (rule' # res), h @ ext @ (new1 @ new2))"
    using s s2 by simp
  moreover have "\<forall>later. map (read_rule (h @ ext @ (new1 @ new2) @ later)) (rule' # res) =
              interpolatePolicy (map (read_rule h) (rule # policy)) context"
  proof
    fix later
    from r have "read_rule (h @ ext @ new1 @ (new2 @ later)) rule' =
              (read_rule h rule)\<lparr>PolicyRule.conditions :=
                 interpolateConditions (PolicyRule.conditions (read_rule h rule)) context\<rparr>"
      by blast
    moreover from r2 have "map (read_rule (h @ ext @ new1 @ new2 @ later)) res =
              interpolatePolicy (map (read_rule h) policy) context"
      by blast
    ultimately show "map (read_rule (h @ ext @ (new1 @ new2) @ later)) (rule' # res) =
              interpolatePolicy (map (read_rule h) (rule # policy)) context"
      by (simp add: interpolatePolicy_def)
  qed
  ultimately show ?case
    using f f2 by (intro exI [of _ "rule' # res"] exI [of _ "new1 @ new2"]) simp
qed

lemma read_rule_prefix:
  assumes "\<forall>a. PolicyRuleObj.conditions rule = Some a \<longrightarrow> a < length h"
  shows "read_rule (h @ new) rule = read_rule h rule"
  using assms by (cases "PolicyRuleObj.conditions rule") (simp_all add: read_rule_def nth_append)

text \<open>
  Claim C9: for every rule list and context, \<open>interpolatePolicy\<close> returns a list of the
  same length in the same order; each output rule equals its input rule in action, subject
  and every other field, its conditions being the interpolated conditions of the input
  rule; and the input is not mutated: every object that was in the store is unchanged and
  the input rules read as before.
\<close>

theorem interpolatePolicy_preserves_rules:
  assumes "\<forall>rule \<in> set policy. \<forall>a. PolicyRuleObj.conditions rule = Some a \<longrightarrow> a < length h"
  shows "\<exists>out h'. interpolatePolicy_heap policy context h = (out, h') \<and>
           length out = length policy \<and>
           map PolicyRuleObj.action out = map PolicyRuleObj.action policy \<and>
           map PolicyRuleObj.subject out = map PolicyRuleObj.subject policy \<and>
           map PolicyRuleObj.more out = map PolicyRuleObj.more policy \<and>
           map (read_rule h') out = interpolatePolicy (map (read_rule h) policy) context \<and>
           map PolicyRule.conditions (interpolatePolicy (map (read_rule h) policy) context) =
             map (\<lambda>rule. interpolateConditions (PolicyRule.conditions (read_rule h rule)) context)
               policy \<and>
           take (length h) h' = h \<and>
           map (read_rule h') policy = map (read_rule h) policy"
proof -
  from fold_policy_step [OF assms, of "context" "[]" "[]"]
  obtain res new where
    s: "fold (policy_step context) policy ([], h) = (res, h @ new)"
    and f: "map PolicyRuleObj.action res = map PolicyRuleObj.action policy"
      "map PolicyRuleObj.subject res = map PolicyRuleObj.subject policy"
      "map PolicyRuleObj.more res = map PolicyRuleObj.more policy"
    and r: "\<forall>later. map (read_rule (h @ [] @ new @ later)) res =
              interpolatePolicy (map (read_rule h) policy) context"
    by auto
  from r have r': "map (read_rule (h @ new)) res =
              interpolatePolicy (map (read_rule h) policy) context"
    using spec [OF r, of "[]"] by simp
  from f(1) have l: "length res = length policy"
    by (rule map_eq_imp_length_eq)
  have c: "map PolicyRule.conditions (interpolatePolicy (map (read_rule h) policy) context) =
             map (\<lambda>rule. interpolateConditions (PolicyRule.conditions (read_rule h rule)) context)
               policy"
    by (simp add: interpolatePolicy_def comp_def)
  have u: "map (read_rule (h @ new)) policy = map (read_rule h) policy"
    using assms by (simp add: read_rule_prefix)
  have "interpolatePolicy_heap policy context h = (res, h @ new)"
    using s by (simp add: interpolatePolicy_heap_fold)
  with l f r' c u show ?thesis by simp
qed

theorem interpolatePolicy_preserves_rules_witness:
  "interpolatePolicy_heap
     [\<lparr>PolicyRuleObj.action = ''delete'', subject = ''Post'', conditions = Some 0\<rparr>,
      \<lparr>PolicyRuleObj.action = ''read'', subject = ''Post'', conditions = None\<rparr>]
     [(''userId'', JNum 7)]
     [[(''authorId'', JStr ''{{userId}}'')]]
   = ([\<lparr>PolicyRuleObj.action = ''delete'', subject = ''Post'', conditions = Some 1\<rparr>,
       \<lparr>PolicyRuleObj.action = ''read'', subject = ''Post'', conditions = None\<rparr>],
      [[(''authorId'', JStr ''{{userId}}'')], [(''authorId'', JNum 7)]])
   \<and> interpolatePolicy
       [\<lparr>PolicyRule.action = ''delete'', subject = ''Post'',
         conditions = Some [(''authorId'', JStr ''{{userId}}'')]\<rparr>,
        \<lparr>PolicyRule.action = ''read'', subject = ''Post'', conditions = None\<rparr>]
       [(''userId'', JNum 7)]
     = [\<lparr>PolicyRule.action = ''delete'', subject = ''Post'',
         conditions = Some [(''authorId'', JNum 7)]\<rparr>,
        \<lparr>PolicyRule.action = ''read'', subject = ''Post'', conditions = None\<rparr>]"
proof -
  let ?policy = "[\<lparr>PolicyRuleObj.action = ''delete'', subject = ''Post'', conditions = Some 0\<rparr>,
      \<lparr>PolicyRuleObj.action = ''read'', subject = ''Post'', conditions = None\<rparr>]"
  let ?h = "[[(''authorId'', JStr ''{{userId}}'')]]"
  have ic: "interpolateConditions (Some [(''authorId'', JStr ''{{userId}}'')]) [(''userId'', JNum 7)] =
              Some [(''authorId'', JNum 7)]"
    by (simp add: interpolateConditions_def interpolate_step_def is_template_def startsWith_def
      endsWith_def contextKey_def slice_def obj_get_def)
  have icn: "interpolateConditions None [(''userId'', JNum 7)] = None"
    by (simp add: interpolateConditions_def)
  have wf: "\<forall>rule \<in> set ?policy. \<forall>a. PolicyRuleObj.conditions rule = Some a \<longrightarrow> a < length ?h"
    by simp
  have e: "interpolatePolicy_heap ?policy [(''userId'', JNum 7)] ?h
   = ([\<lparr>PolicyRuleObj.action = ''delete'', subject = ''Post'', conditions = Some 1\<rparr>,
       \<lparr>PolicyRuleObj.action = ''read'', subject = ''Post'', conditions = None\<rparr>],
      [[(''authorId'', JStr ''{{userId}}'')], [(''authorId'', JNum 7)]])"
    by (simp add: interpolatePolicy_heap_def interpolateConditions_heap_def
        interpolate_step_heap_def is_template_def startsWith_def
        endsWith_def contextKey_def slice_def obj_get_def)
  have p: "interpolatePolicy
       [\<lparr>PolicyRule.action = ''delete'', subject = ''Post'',
         conditions = Some [(''authorId'', JStr ''{{userId}}'')]\<rparr>,
        \<lparr>PolicyRule.action = ''read'', subject = ''Post'', conditions = None\<rparr>]
       [(''userId'', JNum 7)]
     = [\<lparr>PolicyRule.action = ''delete'', subject = ''Post'',
         conditions = Some [(''authorId'', JNum 7)]\<rparr>,
        \<lparr>PolicyRule.action = ''read'', subject = ''Post'', conditions = None\<rparr>]"
    by (simp add: interpolatePolicy_def ic icn)
  from interpolatePolicy_preserves_rules [OF wf, of "[(''userId'', JNum 7)]"] e p
  show ?thesis by simp
qed

end
